theory Spec2Isabelle
  imports Main "HOL-Library.Word"
begin

section \<open>The agent side of the scheduler protocol (libfossscheduler.c)\<close>

subsection \<open>C strings, the inbound byte stream and the C library calls used\<close>

text \<open>
  The inbound stream (\<open>stdin\<close>) is a possibly infinite sequence of bytes: a scheduler may
  keep sending lines for ever. \<open>LNil\<close> is the stream at end-of-file.
\<close>

codatatype 'a llist = LNil | LCons 'a "'a llist"

text \<open>\<open>prepend cs inp\<close> is the stream that delivers the bytes \<open>cs\<close> and then goes on as \<open>inp\<close>.\<close>

primrec prepend :: "'a list \<Rightarrow> 'a llist \<Rightarrow> 'a llist" where
  "prepend [] inp = inp"
| "prepend (c # cs) inp = LCons c (prepend cs inp)"

definition NUL :: char where
  "NUL = CHR 0x00"

definition newline :: char where
  "newline = CHR 0x0A"

text \<open>\<open>char buffer[2048]\<close>: the size of the line buffer.\<close>

definition BUFSIZE :: nat where
  "BUFSIZE = 2048"

text \<open>The C string stored at the start of a char array: the bytes before the first NUL.\<close>

definition c_str :: "string \<Rightarrow> string" where
  "c_str a = takeWhile (\<lambda>c. c \<noteq> NUL) a"

text \<open>
  The bytes one \<open>fgets\<close> call takes from the stream when it may store at most \<open>n\<close> of them:
  it stops after a newline, at end-of-file, or when \<open>n\<close> bytes are read. The result is the
  bytes read and the rest of the stream.
\<close>

primrec fgets_read :: "nat \<Rightarrow> char llist \<Rightarrow> string \<times> char llist" where
  "fgets_read 0 inp = ([], inp)"
| "fgets_read (Suc n) inp =
     (case inp of
        LNil \<Rightarrow> ([], LNil)
      | LCons c rest \<Rightarrow>
          if c = newline then ([c], rest)
          else (case fgets_read n rest of (cs, r) \<Rightarrow> (c # cs, r)))"

text \<open>
  \<open>fgets(buf, n, stdin)\<close>: reads at most \<open>n - 1\<close> bytes, stores them at the start of
  \<open>buf\<close> followed by a NUL and leaves the bytes of \<open>buf\<close> behind the NUL as they were. At
  end-of-file with no byte read the result is \<open>None\<close> (the NULL pointer) and \<open>buf\<close> is
  unchanged.
\<close>

definition fgets :: "string \<Rightarrow> nat \<Rightarrow> char llist \<Rightarrow> (string \<times> char llist) option" where
  "fgets buf n inp =
     (case fgets_read (n - 1) inp of
        ([], _) \<Rightarrow> None
      | (c # cs, rest) \<Rightarrow> Some ((c # cs) @ [NUL] @ drop (length (c # cs) + 1) buf, rest))"

text \<open>
  \<open>strncmp(a, b, n) == 0\<close>: the first \<open>n\<close> bytes of the two C strings agree, where the
  comparison stops at a NUL. The end of a list counts as a NUL.
\<close>

fun strncmp_eq :: "string \<Rightarrow> string \<Rightarrow> nat \<Rightarrow> bool" where
  "strncmp_eq a b 0 = True"
| "strncmp_eq a b (Suc n) =
     (let ca = (case a of [] \<Rightarrow> NUL | c # _ \<Rightarrow> c);
          cb = (case b of [] \<Rightarrow> NUL | c # _ \<Rightarrow> c)
      in if ca \<noteq> cb then False
         else if ca = NUL then True
         else strncmp_eq (tl a) (tl b) n)"

text \<open>
  \<open>atoi\<close> is \<open>(int) strtol(str, NULL, 10)\<close>. \<open>strtol\<close> skips white space, reads an
  optional sign and then decimal digits up to the first byte that is not a digit; the
  number is 0 when there is no digit. A number outside the range of \<open>long\<close> (64 bits)
  becomes \<open>LONG_MAX\<close> or \<open>LONG_MIN\<close>; the conversion to \<open>int\<close> keeps the low 32 bits.
\<close>

definition isspace :: "char \<Rightarrow> bool" where
  "isspace c = (c = CHR '' '' \<or> c = CHR 0x09 \<or> c = CHR 0x0A \<or> c = CHR 0x0B
                \<or> c = CHR 0x0C \<or> c = CHR 0x0D)"

definition isdigit :: "char \<Rightarrow> bool" where
  "isdigit c = (48 \<le> (of_char c :: nat) \<and> (of_char c :: nat) \<le> 57)"

fun atoi_digits :: "int \<Rightarrow> string \<Rightarrow> int" where
  "atoi_digits acc [] = acc"
| "atoi_digits acc (c # cs) =
     (if isdigit c then atoi_digits (10 * acc + (of_char c - 48)) cs else acc)"

text \<open>The number written at the start of a text, before it is brought into range.\<close>

definition number_read :: "string \<Rightarrow> int" where
  "number_read str =
     (case dropWhile isspace str of
        [] \<Rightarrow> 0
      | c # cs \<Rightarrow>
          if c = CHR ''-'' then - atoi_digits 0 cs
          else if c = CHR ''+'' then atoi_digits 0 cs
          else atoi_digits 0 (c # cs))"

definition LONG_MAX :: int where
  "LONG_MAX = 2 ^ 63 - 1"

definition LONG_MIN :: int where
  "LONG_MIN = - (2 ^ 63)"

definition strtol :: "string \<Rightarrow> int" where
  "strtol str = max LONG_MIN (min LONG_MAX (number_read str))"

definition atoi :: "string \<Rightarrow> 32 word" where
  "atoi str = word_of_int (strtol str)"

text \<open>\<open>printf("%d", i)\<close>: the signed decimal form of an \<open>int\<close>.\<close>

fun decimal :: "nat \<Rightarrow> string" where
  "decimal n = (if n < 10 then [''0123456789'' ! n]
                else decimal (n div 10) @ [''0123456789'' ! (n mod 10)])"

declare decimal.simps [simp del]

definition fmt_d :: "32 word \<Rightarrow> string" where
  "fmt_d i = (if sint i < 0 then CHR ''-'' # decimal (nat (- sint i)) else decimal (nat (sint i)))"

subsection \<open>The process state\<close>

text \<open>What \<open>SIGALRM\<close> does: the default action, or \<open>fo_heartbeat\<close> once it is installed.\<close>

datatype handler = SIG_DFL | Fo_heartbeat

text \<open>
  The globals of the library (\<open>items_processed\<close>, \<open>buffer\<close>, \<open>valid\<close>, \<open>found\<close>,
  \<open>verbose\<close>) and the parts of the process they act on: the inbound stream, the outbound
  stream (what \<open>fprintf\<close> has written but not flushed, and what has been flushed), the
  \<open>SIGALRM\<close> handler and the pending alarm in seconds (0: none).
\<close>

record session =
  items_processed :: "32 word"
  buffer :: string
  valid :: "32 word"
  found :: "32 word"
  verbose :: "32 word"
  stdin :: "char llist"
  stdout_pending :: string
  stdout_sent :: string
  sigalrm :: handler
  alarm :: nat

definition fprintf_stdout :: "string \<Rightarrow> session \<Rightarrow> session" where
  "fprintf_stdout str s = s\<lparr>stdout_pending := stdout_pending s @ str\<rparr>"

definition fflush_stdout :: "session \<Rightarrow> session" where
  "fflush_stdout s = s\<lparr>stdout_sent := stdout_sent s @ stdout_pending s, stdout_pending := []\<rparr>"

text \<open>Everything written to the outbound stream so far, flushed or not.\<close>

definition written :: "session \<Rightarrow> string" where
  "written s = stdout_sent s @ stdout_pending s"

text \<open>A \<open>char*\<close> result of the library: NULL or the address of the global \<open>buffer\<close>.\<close>

datatype char_ptr = NULL | Buffer

text \<open>The text a result points to, read in a given state.\<close>

definition text_at :: "session \<Rightarrow> char_ptr \<Rightarrow> string option" where
  "text_at s p = (case p of NULL \<Rightarrow> None | Buffer \<Rightarrow> Some (c_str (buffer s)))"

text \<open>A process that has called \<open>exit\<close>: its status and all it wrote to the outbound stream.\<close>

record exited =
  exit_status :: int
  final_output :: string

text \<open>\<open>exit(status)\<close> flushes the open streams and ends the process.\<close>

definition exit_process :: "int \<Rightarrow> session \<Rightarrow> exited" where
  "exit_process status s =
     \<lparr>exit_status = status, final_output = stdout_sent (fflush_stdout s)\<rparr>"

subsection \<open>The functions of libfossscheduler.c\<close>

text \<open>
  \<open>SVN_REV\<close> (the version string, set by the build) and \<open>ALARM_SECS\<close> (from the header)
  are parameters \<open>svn_rev\<close> and \<open>secs\<close> of the functions that use them.
\<close>

definition fo_heartbeat :: "nat \<Rightarrow> session \<Rightarrow> session" where
  "fo_heartbeat secs s =
     (fflush_stdout
        (fprintf_stdout (''HEART: '' @ fmt_d (items_processed s) @ [newline]) s))
     \<lparr>alarm := secs\<rparr>"

definition fo_scheduler_heart :: "32 word \<Rightarrow> session \<Rightarrow> session" where
  "fo_scheduler_heart i s = s\<lparr>items_processed := items_processed s + i\<rparr>"

text \<open>
  \<open>fo_scheduler_connect(&argc, argv)\<close>. \<open>argv\<close> is an array of pointers (\<open>None\<close>: NULL).
  The result is the new \<open>argc\<close>, the new \<open>argv\<close> and the new state; it is \<open>None\<close> where
  the C is undefined: \<open>argv[argc - 1]\<close> outside the array, or NULL given to \<open>strcmp\<close>.
\<close>

definition fo_scheduler_connect ::
  "string \<Rightarrow> nat \<Rightarrow> int \<Rightarrow> string option list \<Rightarrow> session
     \<Rightarrow> (int \<times> string option list \<times> session) option" where
  "fo_scheduler_connect svn_rev secs argc argv s =
     (if argc - 1 < 0 \<or> int (length argv) \<le> argc - 1 then None
      else case argv ! nat (argc - 1) of
        None \<Rightarrow> None
      | Some last_arg \<Rightarrow>
          let s1 = s\<lparr>found := 0\<rparr>;
              (argc', argv', s2) =
                (if last_arg = ''--scheduler_start''
                 then (argc - 1, argv[nat (argc - 1) := None],
                       (fprintf_stdout (svn_rev @ [newline]) s1)\<lparr>found := 1\<rparr>)
                 else (argc, argv, s1));
              s3 = s2\<lparr>items_processed := 0, buffer := replicate BUFSIZE NUL,
                      valid := 0, verbose := 0\<rparr>;
              s4 = (if found s3 \<noteq> 0
                    then (fflush_stdout (fprintf_stdout ''OK\<newline>'' s3))
                         \<lparr>sigalrm := Fo_heartbeat, alarm := secs\<rparr>
                    else s3)
          in Some (argc', argv', s4))"

definition fo_scheduler_disconnect :: "session \<Rightarrow> exited" where
  "fo_scheduler_disconnect s =
     exit_process 0
       (if found s \<noteq> 0 then fflush_stdout (fprintf_stdout ''BYE\<newline>'' s) else s)"

text \<open>
  \<open>fo_scheduler_next()\<close> calls itself after a control line and so need not return: the
  result \<open>None\<close> is a call that never returns, \<open>Some (p, s')\<close> one that returns \<open>p\<close> in
  state \<open>s'\<close>.
\<close>

partial_function (option) fo_scheduler_next ::
  "string \<Rightarrow> session \<Rightarrow> (char_ptr \<times> session) option" where
  "fo_scheduler_next svn_rev s0 =
     (let s = fflush_stdout s0 in
      case fgets (buffer s) BUFSIZE (stdin s) of
        None \<Rightarrow> Some (NULL, s\<lparr>valid := 0\<rparr>)
      | Some (buf, rest) \<Rightarrow>
          let s = s\<lparr>buffer := buf, stdin := rest\<rparr> in
          if strncmp_eq (buffer s) ''CLOSE'' 5 then Some (NULL, s\<lparr>valid := 0\<rparr>)
          else if strncmp_eq (buffer s) ''END'' 3
          then fo_scheduler_next svn_rev (fflush_stdout (fprintf_stdout ''OK\<newline>'' s))
          else if strncmp_eq (buffer s) ''VERBOSE'' 7
          then fo_scheduler_next svn_rev (s\<lparr>verbose := atoi (drop 8 (buffer s)), valid := 0\<rparr>)
          else if strncmp_eq (buffer s) ''VERSION'' 7
          then fo_scheduler_next svn_rev ((fprintf_stdout (svn_rev @ [newline]) s)\<lparr>valid := 0\<rparr>)
          else Some (Buffer, s\<lparr>valid := 1\<rparr>))"

definition fo_scheduler_current :: "session \<Rightarrow> char_ptr" where
  "fo_scheduler_current s = (if valid s \<noteq> 0 then Buffer else NULL)"

subsection \<open>One pass through the body of \<open>fo_scheduler_next\<close>\<close>

text \<open>
  The body of \<open>fo_scheduler_next\<close> up to its \<open>return\<close>: either it returns a pointer, or it
  is about to call itself, and the state is the one the inner call starts in. This is the
  state "after one inbound line is read and handled".
\<close>

datatype outcome = Returned char_ptr session | Recursed session

definition next_body :: "string \<Rightarrow> session \<Rightarrow> outcome" where
  "next_body svn_rev s0 =
     (let s = fflush_stdout s0 in
      case fgets (buffer s) BUFSIZE (stdin s) of
        None \<Rightarrow> Returned NULL (s\<lparr>valid := 0\<rparr>)
      | Some (buf, rest) \<Rightarrow>
          let s = s\<lparr>buffer := buf, stdin := rest\<rparr> in
          if strncmp_eq (buffer s) ''CLOSE'' 5 then Returned NULL (s\<lparr>valid := 0\<rparr>)
          else if strncmp_eq (buffer s) ''END'' 3
          then Recursed (fflush_stdout (fprintf_stdout ''OK\<newline>'' s))
          else if strncmp_eq (buffer s) ''VERBOSE'' 7
          then Recursed (s\<lparr>verbose := atoi (drop 8 (buffer s)), valid := 0\<rparr>)
          else if strncmp_eq (buffer s) ''VERSION'' 7
          then Recursed ((fprintf_stdout (svn_rev @ [newline]) s)\<lparr>valid := 0\<rparr>)
          else Returned Buffer (s\<lparr>valid := 1\<rparr>))"

text \<open>The state a pass through the body ends in, and whether it ends in the recursive call.\<close>

primrec outcome_state :: "outcome \<Rightarrow> session" where
  "outcome_state (Returned p s) = s"
| "outcome_state (Recursed s) = s"

primrec recursed :: "outcome \<Rightarrow> bool" where
  "recursed (Returned p s) = False"
| "recursed (Recursed s) = True"

text \<open>The text a returning call hands to its caller (\<open>None\<close>: the NULL pointer).\<close>

definition result_text :: "char_ptr \<times> session \<Rightarrow> string option" where
  "result_text r = text_at (snd r) (fst r)"

subsection \<open>Inbound lines and their classes, as the specification names them\<close>

definition starts_with :: "string \<Rightarrow> string \<Rightarrow> bool" where
  "starts_with p l = (take (length p) l = p)"

datatype line_class = Close | End | Verbose | Version | Data

text \<open>Classification by fixed prefix, in the priority order of the specification.\<close>

definition classify :: "string \<Rightarrow> line_class" where
  "classify l =
     (if starts_with ''CLOSE'' l then Close
      else if starts_with ''END'' l then End
      else if starts_with ''VERBOSE'' l then Verbose
      else if starts_with ''VERSION'' l then Version
      else Data)"

text \<open>The control lines after which \<open>fo_scheduler_next\<close> goes on reading.\<close>

definition passed_through :: "line_class \<Rightarrow> bool" where
  "passed_through c = (c = End \<or> c = Verbose \<or> c = Version)"

text \<open>
  The chunk one read (one \<open>fgets\<close> call) takes from the stream, with the stream behind
  it; \<open>None\<close> at end-of-file. A chunk is a line with its newline, or the first
  \<open>BUFSIZE - 1\<close> bytes of a longer line, or what is left before end-of-file.
\<close>

definition read_chunk :: "char llist \<Rightarrow> (string \<times> char llist) option" where
  "read_chunk inp =
     (case fgets_read (BUFSIZE - 1) inp of
        ([], _) \<Rightarrow> None
      | (c # cs, rest) \<Rightarrow> Some (c # cs, rest))"

text \<open>The stream after \<open>n\<close> reads. A read at end-of-file leaves the stream where it is.\<close>

fun after_reads :: "nat \<Rightarrow> char llist \<Rightarrow> char llist" where
  "after_reads 0 inp = inp"
| "after_reads (Suc n) inp =
     after_reads n (case read_chunk inp of None \<Rightarrow> inp | Some (l, rest) \<Rightarrow> rest)"

text \<open>
  \<open>control_reads n inp\<close>: each of the first \<open>n\<close> reads of the stream delivers a chunk of
  the class END, VERBOSE or VERSION, and the read after them delivers a chunk of another
  class or meets end-of-file.
\<close>

fun control_reads :: "nat \<Rightarrow> char llist \<Rightarrow> bool" where
  "control_reads 0 inp =
     (case read_chunk inp of
        None \<Rightarrow> True
      | Some (l, rest) \<Rightarrow> \<not> passed_through (classify l))"
| "control_reads (Suc n) inp =
     (case read_chunk inp of
        None \<Rightarrow> False
      | Some (l, rest) \<Rightarrow> passed_through (classify l) \<and> control_reads n rest)"

text \<open>
  A text in which \<open>atoi\<close> finds no number: after the white space and an optional sign there
  is no digit.
\<close>

definition non_numeric :: "string \<Rightarrow> bool" where
  "non_numeric str =
     (case dropWhile isspace str of
        [] \<Rightarrow> True
      | c # cs \<Rightarrow>
          if c = CHR ''-'' \<or> c = CHR ''+'' then (case cs of [] \<Rightarrow> True | d # _ \<Rightarrow> \<not> isdigit d)
          else \<not> isdigit c)"

text \<open>
  An inbound line that fits the buffer: it ends with its only newline, and with the NUL
  behind it it takes at most \<open>BUFSIZE\<close> bytes.
\<close>

definition fitting_line :: "string \<Rightarrow> bool" where
  "fitting_line l =
     (l \<noteq> [] \<and> last l = newline \<and> newline \<notin> set (butlast l) \<and> length l < BUFSIZE)"

text \<open>What a returning call leaves unread on the inbound stream.\<close>

definition unread :: "char_ptr \<times> session \<Rightarrow> char llist" where
  "unread r = stdin (snd r)"

subsection \<open>A process at its start\<close>

text \<open>C sets the globals to zero; nothing has been read or written, no handler is installed.\<close>

definition session0 :: session where
  "session0 =
     \<lparr>items_processed = 0, buffer = replicate BUFSIZE NUL, valid = 0, found = 0, verbose = 0,
      stdin = LNil, stdout_pending = [], stdout_sent = [], sigalrm = SIG_DFL, alarm = 0\<rparr>"

section \<open>Facts about the library calls\<close>

text \<open>For running \<open>fgets_read\<close> on a given stream.\<close>

lemma fgets_read_numeral:
  "fgets_read (numeral k) inp =
     (case inp of
        LNil \<Rightarrow> ([], LNil)
      | LCons c rest \<Rightarrow>
          if c = newline then ([c], rest)
          else (case fgets_read (pred_numeral k) rest of (cs, r) \<Rightarrow> (c # cs, r)))"
  by (simp add: numeral_eq_Suc)

lemma fgets_read_chunk:
  "newline \<notin> set l \<Longrightarrow> length l < n \<Longrightarrow>
   fgets_read n (prepend (l @ [newline]) rest) = (l @ [newline], rest)"
proof (induction l arbitrary: n)
  case Nil
  then show ?case by (cases n) simp_all
next
  case (Cons c l)
  then show ?case by (cases n) auto
qed

lemma fgets_read_full:
  "newline \<notin> set l \<Longrightarrow> fgets_read (length l) (prepend l rest) = (l, rest)"
  by (induction l) auto

lemma strncmp_eq_take:
  "NUL \<notin> set lit \<Longrightarrow> n = length lit \<Longrightarrow> strncmp_eq a lit n = (take n a = lit)"
proof (induction lit arbitrary: a n)
  case Nil
  then show ?case by simp
next
  case (Cons c lit)
  then show ?case by (cases a) (auto simp: Let_def)
qed

lemma fgets_read_prefix:
  "newline \<notin> set p \<Longrightarrow> length p \<le> n \<Longrightarrow>
   fgets_read n (prepend p rest) =
     (p @ fst (fgets_read (n - length p) rest), snd (fgets_read (n - length p) rest))"
proof (induction p arbitrary: n)
  case Nil
  then show ?case by simp
next
  case (Cons c p)
  then show ?case by (cases n) (auto split: prod.splits)
qed

lemma next_unfold:
  "fo_scheduler_next svn_rev s =
     (case next_body svn_rev s of
        Returned p s' \<Rightarrow> Some (p, s')
      | Recursed s' \<Rightarrow> fo_scheduler_next svn_rev s')"
  by (subst fo_scheduler_next.simps)
     (simp add: next_body_def Let_def split: option.splits)

lemma starts_with_terminated:
  "NUL \<notin> set p \<Longrightarrow> starts_with p (l @ NUL # t) = starts_with p l"
proof (induction p arbitrary: l)
  case Nil
  then show ?case by (simp add: starts_with_def)
next
  case (Cons c p)
  then show ?case by (cases l) (auto simp: starts_with_def)
qed

lemma strncmp_eq_starts_with:
  "NUL \<notin> set p \<Longrightarrow> n = length p \<Longrightarrow> strncmp_eq (l @ NUL # t) p n = starts_with p l"
  using strncmp_eq_take [of p n "l @ NUL # t"] starts_with_terminated [of p l t]
  by (simp add: starts_with_def)

lemma read_chunk_fgets_None:
  "read_chunk inp = None \<Longrightarrow> fgets buf BUFSIZE inp = None"
  by (auto simp: read_chunk_def fgets_def split: prod.splits list.splits)

lemma read_chunk_fgets_Some:
  "read_chunk inp = Some (l, rest) \<Longrightarrow>
   fgets buf BUFSIZE inp = Some (l @ NUL # drop (length l + 1) buf, rest)"
  by (auto simp: read_chunk_def fgets_def split: prod.splits list.splits)

lemma next_body_eof:
  "read_chunk (stdin s) = None \<Longrightarrow>
   next_body svn_rev s = Returned NULL ((fflush_stdout s)\<lparr>valid := 0\<rparr>)"
  using read_chunk_fgets_None [of "stdin s" "buffer s"]
  by (simp add: next_body_def fflush_stdout_def)

lemma next_body_line:
  assumes "read_chunk (stdin s) = Some (l, rest)"
  shows "next_body svn_rev s =
     (let s1 = (fflush_stdout s)\<lparr>buffer := l @ NUL # drop (length l + 1) (buffer s),
                                 stdin := rest\<rparr>
      in case classify l of
           Close \<Rightarrow> Returned NULL (s1\<lparr>valid := 0\<rparr>)
         | End \<Rightarrow> Recursed (fflush_stdout (fprintf_stdout ''OK\<newline>'' s1))
         | Verbose \<Rightarrow> Recursed (s1\<lparr>verbose := atoi (drop 8 (buffer s1)), valid := 0\<rparr>)
         | Version \<Rightarrow> Recursed ((fprintf_stdout (svn_rev @ [newline]) s1)\<lparr>valid := 0\<rparr>)
         | Data \<Rightarrow> Returned Buffer (s1\<lparr>valid := 1\<rparr>))"
proof -
  have f: "fgets (buffer (fflush_stdout s)) BUFSIZE (stdin (fflush_stdout s)) =
           Some (l @ NUL # drop (length l + 1) (buffer s), rest)"
    using read_chunk_fgets_Some [OF assms, of "buffer s"] by (simp add: fflush_stdout_def)
  have c: "strncmp_eq (l @ NUL # t) ''CLOSE'' 5 = starts_with ''CLOSE'' l"
          "strncmp_eq (l @ NUL # t) ''END'' 3 = starts_with ''END'' l"
          "strncmp_eq (l @ NUL # t) ''VERBOSE'' 7 = starts_with ''VERBOSE'' l"
          "strncmp_eq (l @ NUL # t) ''VERSION'' 7 = starts_with ''VERSION'' l" for t
    by (rule strncmp_eq_starts_with; simp add: NUL_def)+
  show ?thesis
    unfolding next_body_def Let_def f
    by (simp add: c classify_def)
qed

lemma read_chunk_prepend:
  "newline \<notin> set l \<Longrightarrow> length l + 1 < BUFSIZE \<Longrightarrow>
   read_chunk (prepend (l @ [newline]) rest) = Some (l @ [newline], rest)"
  using fgets_read_chunk [of l "BUFSIZE - 1" rest]
  by (cases l) (simp_all add: read_chunk_def)

lemma next_body_prepend:
  assumes "stdin s = prepend (l @ [newline]) rest" and "newline \<notin> set l"
    and "length l + 1 < BUFSIZE"
  shows "next_body svn_rev s =
     (let s1 = (fflush_stdout s)\<lparr>buffer := (l @ [newline]) @ NUL # drop (length l + 2) (buffer s),
                                 stdin := rest\<rparr>
      in case classify (l @ [newline]) of
           Close \<Rightarrow> Returned NULL (s1\<lparr>valid := 0\<rparr>)
         | End \<Rightarrow> Recursed (fflush_stdout (fprintf_stdout ''OK\<newline>'' s1))
         | Verbose \<Rightarrow> Recursed (s1\<lparr>verbose := atoi (drop 8 (buffer s1)), valid := 0\<rparr>)
         | Version \<Rightarrow> Recursed ((fprintf_stdout (svn_rev @ [newline]) s1)\<lparr>valid := 0\<rparr>)
         | Data \<Rightarrow> Returned Buffer (s1\<lparr>valid := 1\<rparr>))"
proof -
  have "read_chunk (stdin s) = Some (l @ [newline], rest)"
    using assms by (simp add: read_chunk_prepend)
  from next_body_line [OF this] show ?thesis by simp
qed

section \<open>Numbers as text: \<open>%d\<close> and \<open>atoi\<close>\<close>

lemma digit_char:
  assumes "k < 10"
  shows "isdigit (''0123456789'' ! k)" and "(of_char (''0123456789'' ! k) :: int) - 48 = int k"
proof -
  from assms have "k = 0 \<or> k = 1 \<or> k = 2 \<or> k = 3 \<or> k = 4 \<or> k = 5 \<or> k = 6 \<or> k = 7
                   \<or> k = 8 \<or> k = 9"
    by arith
  then show "isdigit (''0123456789'' ! k)"
    and "(of_char (''0123456789'' ! k) :: int) - 48 = int k"
    by (auto simp: isdigit_def)
qed

lemma atoi_digits_snoc:
  "\<forall>c\<in>set xs. isdigit c \<Longrightarrow>
   atoi_digits acc (xs @ ys) = atoi_digits (atoi_digits acc xs) ys"
  by (induction xs arbitrary: acc) simp_all

lemma decimal_digits: "\<forall>c\<in>set (decimal n). isdigit c"
proof (induction n rule: decimal.induct)
  case (1 n)
  show ?case
  proof (cases "n < 10")
    case True
    then show ?thesis by (subst decimal.simps) (simp add: digit_char)
  next
    case False
    with 1 show ?thesis
      by (subst decimal.simps) (simp add: digit_char)
  qed
qed

lemma decimal_not_empty: "decimal n \<noteq> []"
  by (subst decimal.simps) simp

lemma atoi_digits_decimal:
  "atoi_digits acc (decimal n) = acc * 10 ^ length (decimal n) + int n"
proof (induction n arbitrary: acc rule: decimal.induct)
  case (1 n)
  show ?case
  proof (cases "n < 10")
    case True
    then show ?thesis by (subst (1 2) decimal.simps) (simp add: digit_char)
  next
    case False
    have "atoi_digits acc (decimal (n div 10) @ [''0123456789'' ! (n mod 10)]) =
          atoi_digits (atoi_digits acc (decimal (n div 10))) [''0123456789'' ! (n mod 10)]"
      by (rule atoi_digits_snoc) (rule decimal_digits)
    also have "\<dots> = 10 * (acc * 10 ^ length (decimal (n div 10)) + int (n div 10)) + int (n mod 10)"
      using "1.IH" [OF False] by (simp add: digit_char)
    also have "\<dots> = acc * 10 ^ (length (decimal (n div 10)) + 1) + int n"
      by (simp add: algebra_simps zdiv_int zmod_int)
    finally show ?thesis
      using False by (subst (1 2) decimal.simps) simp
  qed
qed

lemma number_read_decimal:
  assumes "\<not> isdigit c"
  shows "number_read (decimal n @ c # r) = int n"
    and "number_read (CHR ''-'' # decimal n @ c # r) = - int n"
proof -
  obtain d ds where d: "decimal n = d # ds"
    using decimal_not_empty [of n] by (cases "decimal n") auto
  have dig: "\<forall>x\<in>set (d # ds). isdigit x"
    using decimal_digits [of n] d by simp
  then have "isdigit d" by simp
  then have nd: "\<not> isspace d" "d \<noteq> CHR ''-''" "d \<noteq> CHR ''+''"
    by (auto simp: isspace_def isdigit_def)
  have v: "atoi_digits 0 (decimal n @ c # r) = int n"
    using atoi_digits_snoc [OF decimal_digits, of 0 n "c # r"] assms
    by (simp add: atoi_digits_decimal)
  show "number_read (decimal n @ c # r) = int n"
    using v nd unfolding number_read_def d by simp
  show "number_read (CHR ''-'' # decimal n @ c # r) = - int n"
    using v by (simp add: number_read_def isspace_def)
qed

lemma atoi_fmt_d:
  assumes "\<not> isdigit c"
  shows "atoi (fmt_d i @ c # r) = i"
proof -
  have b: "- (2 ^ 31) \<le> sint i" "sint i < 2 ^ 31"
    using sint_ge [of i] sint_lt [of i] by simp_all
  have "number_read (fmt_d i @ c # r) = sint i"
    using number_read_decimal [OF assms, of "nat (sint i)" r]
          number_read_decimal [OF assms, of "nat (- sint i)" r]
    by (simp add: fmt_d_def)
  then have "strtol (fmt_d i @ c # r) = sint i"
    using b by (simp add: strtol_def LONG_MAX_def LONG_MIN_def)
  then show ?thesis by (simp add: atoi_def)
qed

lemma decimal_length: "n < 10 ^ k \<Longrightarrow> 0 < k \<Longrightarrow> length (decimal n) \<le> k"
proof (induction n arbitrary: k rule: decimal.induct)
  case (1 n)
  show ?case
  proof (cases "n < 10")
    case True
    with "1.prems" show ?thesis by (subst decimal.simps) simp
  next
    case False
    with "1.prems" obtain j where k: "k = Suc j" by (cases k) auto
    with "1.prems" False have j: "0 < j" by (cases j) auto
    from "1.prems" k have "n div 10 < 10 ^ j" by (simp add: less_mult_imp_div_less)
    from "1.IH" [OF False this j] k False show ?thesis
      by (subst decimal.simps) simp
  qed
qed

lemma fmt_d_length: "length (fmt_d i) \<le> 11"
proof -
  have b: "- (2 ^ 31) \<le> sint i" "sint i < 2 ^ 31"
    using sint_ge [of i] sint_lt [of i] by simp_all
  have "length (decimal (nat (sint i))) \<le> 10" "length (decimal (nat (- sint i))) \<le> 10"
    using b by (auto intro!: decimal_length)
  then show ?thesis by (simp add: fmt_d_def)
qed

lemma fmt_d_no_newline: "newline \<notin> set (fmt_d i)"
  using decimal_digits [of "nat (sint i)"] decimal_digits [of "nat (- sint i)"]
  by (auto simp: fmt_d_def isdigit_def newline_def)

lemma atoi_saturates: "atoi ''99999999999999999999'' = - 1"
  by (simp add: atoi_def strtol_def number_read_def LONG_MAX_def LONG_MIN_def
                isspace_def isdigit_def)

section \<open>Data lines (C1)\<close>

lemma c_str_terminated: "NUL \<notin> set l \<Longrightarrow> c_str (l @ NUL # t) = l"
  by (induction l) (auto simp: c_str_def)

lemma starts_with_hd:
  "p \<noteq> [] \<Longrightarrow> l \<noteq> [] \<Longrightarrow> hd l \<noteq> hd p \<Longrightarrow> \<not> starts_with p l"
  by (cases p; cases l) (auto simp: starts_with_def)

lemma data_line:
  assumes inp: "stdin s = prepend (l @ [newline]) rest"
    and nl: "newline \<notin> set l"
    and fits: "length l + 1 < BUFSIZE"
    and data: "classify (l @ [newline]) = Data"
  shows "next_body svn_rev s =
           Returned Buffer
             ((fflush_stdout s)\<lparr>buffer := (l @ [newline]) @ NUL # drop (length l + 2) (buffer s),
                                stdin := rest, valid := 1\<rparr>)"
proof -
  have "read_chunk (stdin s) = Some (l @ [newline], rest)"
    using inp nl fits by (simp add: read_chunk_prepend)
  from next_body_line [OF this] data show ?thesis
    by (simp add: Let_def)
qed

text \<open>
  C1, as amended: for every inbound line of text (no NUL byte) that fits the buffer, that is
  at most 2047 bytes with its newline, and whose prefix matches none of CLOSE, END, VERBOSE
  and VERSION, \<open>fo_scheduler_next\<close> returns the buffer holding that line verbatim, newline
  included, and \<open>fo_scheduler_current\<close> then returns the same text.
\<close>

theorem data_line_returned:
  assumes inp: "stdin s = prepend (l @ [newline]) rest"
    and nl: "newline \<notin> set l"
    and nul: "NUL \<notin> set l"
    and fits: "length l + 1 < BUFSIZE"
    and p1: "\<not> starts_with ''CLOSE'' (l @ [newline])"
    and p2: "\<not> starts_with ''END'' (l @ [newline])"
    and p3: "\<not> starts_with ''VERBOSE'' (l @ [newline])"
    and p4: "\<not> starts_with ''VERSION'' (l @ [newline])"
  shows "\<exists>s'. fo_scheduler_next svn_rev s = Some (Buffer, s')
              \<and> text_at s' Buffer = Some (l @ [newline])
              \<and> fo_scheduler_current s' = Buffer
              \<and> text_at s' (fo_scheduler_current s') = Some (l @ [newline])
              \<and> stdin s' = rest"
proof -
  let ?s' = "(fflush_stdout s)\<lparr>buffer := (l @ [newline]) @ NUL # drop (length l + 2) (buffer s),
                                stdin := rest, valid := 1\<rparr>"
  have "classify (l @ [newline]) = Data"
    using p1 p2 p3 p4 by (simp add: classify_def)
  from data_line [OF inp nl fits this]
  have r: "fo_scheduler_next svn_rev s = Some (Buffer, ?s')"
    by (subst next_unfold) simp
  have "NUL \<notin> set (l @ [newline])"
    using nul by (simp add: NUL_def newline_def)
  then have t: "c_str (buffer ?s') = l @ [newline]"
    using c_str_terminated [of "l @ [newline]"] by simp
  have c: "fo_scheduler_current ?s' = Buffer"
    by (simp add: fo_scheduler_current_def)
  show ?thesis
    using r t c by (simp add: text_at_def)
qed

text \<open>The line \<open>foo.txt\<close> satisfies the hypotheses of C1 and is returned.\<close>

theorem data_line_returned_witness:
  "stdin (session0\<lparr>stdin := prepend ''foo.txt\<newline>'' LNil\<rparr>) = prepend (''foo.txt'' @ [newline]) LNil
   \<and> newline \<notin> set ''foo.txt'' \<and> NUL \<notin> set ''foo.txt'' \<and> length ''foo.txt'' + 1 < BUFSIZE
   \<and> \<not> starts_with ''CLOSE'' (''foo.txt'' @ [newline])
   \<and> \<not> starts_with ''END'' (''foo.txt'' @ [newline])
   \<and> \<not> starts_with ''VERBOSE'' (''foo.txt'' @ [newline])
   \<and> \<not> starts_with ''VERSION'' (''foo.txt'' @ [newline])
   \<and> (\<exists>s'. fo_scheduler_next ''SVN_REV Unknown'' (session0\<lparr>stdin := prepend ''foo.txt\<newline>'' LNil\<rparr>)
               = Some (Buffer, s')
            \<and> text_at s' Buffer = Some ''foo.txt\<newline>''
            \<and> fo_scheduler_current s' = Buffer
            \<and> text_at s' (fo_scheduler_current s') = Some ''foo.txt\<newline>''
            \<and> stdin s' = LNil)"
  using data_line_returned [of "session0\<lparr>stdin := prepend ''foo.txt\<newline>'' LNil\<rparr>"
                               "''foo.txt''" LNil "''SVN_REV Unknown''"]
  by (simp add: newline_def NUL_def BUFSIZE_def starts_with_def)

lemma read_chunk_long:
  "read_chunk (prepend (replicate 2047 (CHR ''a'') @ [newline]) LNil) =
     Some (replicate 2047 (CHR ''a''), prepend [newline] LNil)"
proof -
  have "fgets_read (length (replicate 2047 (CHR ''a'')))
          (prepend (replicate 2047 (CHR ''a'')) (prepend [newline] LNil)) =
        (replicate 2047 (CHR ''a''), prepend [newline] LNil)"
    by (rule fgets_read_full) (simp add: newline_def)
  moreover have "prepend (xs @ ys) r = prepend xs (prepend ys r)" for xs ys :: string and r
    by (induction xs) simp_all
  ultimately have "fgets_read (BUFSIZE - 1) (prepend (replicate 2047 (CHR ''a'') @ [newline]) LNil) =
        (replicate 2047 (CHR ''a''), prepend [newline] LNil)"
    by (simp add: BUFSIZE_def)
  moreover have "replicate 2047 (CHR ''a'') = CHR ''a'' # replicate 2046 (CHR ''a'')"
    by (simp add: replicate_Suc [symmetric] del: replicate_Suc)
  ultimately show ?thesis
    by (simp add: read_chunk_def)
qed

text \<open>
  C1 as it is stated fails for a line that does not fit the buffer: of a data line of 2047
  letters and a newline (2048 bytes), \<open>fo_scheduler_next\<close> returns the 2047 letters
  only; the newline is left for the next call.
\<close>

theorem long_line_truncated:
  "classify (replicate 2047 (CHR ''a'') @ [newline]) = Data
   \<and> map_option result_text
        (fo_scheduler_next ''SVN_REV Unknown''
           (session0\<lparr>stdin := prepend (replicate 2047 (CHR ''a'') @ [newline]) LNil\<rparr>))
     = Some (Some (replicate 2047 (CHR ''a'')))
   \<and> map_option result_text
        (fo_scheduler_next ''SVN_REV Unknown''
           (session0\<lparr>stdin := prepend (replicate 2047 (CHR ''a'') @ [newline]) LNil\<rparr>))
     \<noteq> Some (Some (replicate 2047 (CHR ''a'') @ [newline]))"
proof -
  let ?a = "replicate 2047 (CHR ''a'')"
  let ?s = "session0\<lparr>stdin := prepend (?a @ [newline]) LNil\<rparr>"
  have ne: "?a \<noteq> []" by simp
  have hd: "hd ?a = CHR ''a''" by (simp add: hd_replicate)
  have d: "classify ?a = Data"
    using ne hd by (simp add: classify_def starts_with_hd)
  have d': "classify (?a @ [newline]) = Data"
    using ne hd by (simp add: classify_def starts_with_hd)
  have "read_chunk (stdin ?s) = Some (?a, prepend [newline] LNil)"
    using read_chunk_long by simp
  from next_body_line [OF this, of "''SVN_REV Unknown''"] d
  have "\<exists>s'. next_body ''SVN_REV Unknown'' ?s = Returned Buffer s'
             \<and> (\<exists>t. buffer s' = ?a @ NUL # t)"
    by (simp add: Let_def)
  then obtain s' t where b: "next_body ''SVN_REV Unknown'' ?s = Returned Buffer s'"
    and t: "buffer s' = ?a @ NUL # t" by blast
  have "NUL \<notin> set ?a" by (simp add: NUL_def)
  then have "c_str (buffer s') = ?a"
    unfolding t by (rule c_str_terminated)
  moreover have "fo_scheduler_next ''SVN_REV Unknown'' ?s = Some (Buffer, s')"
    by (subst next_unfold) (simp add: b)
  ultimately have e: "map_option result_text (fo_scheduler_next ''SVN_REV Unknown'' ?s) = Some (Some ?a)"
    by (simp add: result_text_def text_at_def)
  show ?thesis
    unfolding e using d' by simp
qed

section \<open>End of work (C2)\<close>

lemma read_chunk_LNil: "read_chunk LNil = None"
  by (simp add: read_chunk_def BUFSIZE_def eval_nat_numeral)

lemma read_chunk_CLOSE:
  "\<exists>l r. read_chunk (prepend ''CLOSE'' rest) = Some (l, r) \<and> starts_with ''CLOSE'' l"
proof -
  have "fgets_read (BUFSIZE - 1) (prepend ''CLOSE'' rest) =
          (''CLOSE'' @ fst (fgets_read (BUFSIZE - 1 - length ''CLOSE'') rest),
           snd (fgets_read (BUFSIZE - 1 - length ''CLOSE'') rest))"
    by (rule fgets_read_prefix) (simp_all add: newline_def BUFSIZE_def)
  then show ?thesis
    by (simp add: read_chunk_def starts_with_def)
qed

text \<open>
  C2: when the inbound stream is at end-of-file or starts with CLOSE, \<open>fo_scheduler_next\<close>
  returns NULL and a following \<open>fo_scheduler_current\<close> returns NULL. Both conditions are
  handled in the same way: apart from the line that was read, the only changes are the
  flush and \<open>valid = 0\<close>; nothing is written.
\<close>

theorem close_or_eof:
  assumes "stdin s = LNil \<or> (\<exists>rest. stdin s = prepend ''CLOSE'' rest)"
  shows "\<exists>s'. fo_scheduler_next svn_rev s = Some (NULL, s')
              \<and> fo_scheduler_current s' = NULL
              \<and> text_at s' (fo_scheduler_current s') = None
              \<and> s' = (fflush_stdout s)\<lparr>buffer := buffer s', stdin := stdin s', valid := 0\<rparr>
              \<and> written s' = written s"
proof -
  have "\<exists>s'. next_body svn_rev s = Returned NULL s'
             \<and> s' = (fflush_stdout s)\<lparr>buffer := buffer s', stdin := stdin s', valid := 0\<rparr>"
    using assms
  proof
    assume "stdin s = LNil"
    then have "read_chunk (stdin s) = None" by (simp add: read_chunk_LNil)
    from next_body_eof [OF this] show ?thesis by (simp add: fflush_stdout_def)
  next
    assume "\<exists>rest. stdin s = prepend ''CLOSE'' rest"
    then obtain l r where r: "read_chunk (stdin s) = Some (l, r)" and c: "starts_with ''CLOSE'' l"
      using read_chunk_CLOSE by metis
    from c have "classify l = Close" by (simp add: classify_def)
    with next_body_line [OF r] show ?thesis by (simp add: fflush_stdout_def)
  qed
  then obtain s' where b: "next_body svn_rev s = Returned NULL s'"
    and s': "s' = (fflush_stdout s)\<lparr>buffer := buffer s', stdin := stdin s', valid := 0\<rparr>"
    by blast
  have "fo_scheduler_next svn_rev s = Some (NULL, s')"
    by (subst next_unfold) (simp add: b)
  moreover have "valid s' = 0" by (subst s') simp
  moreover have "written s' = written s"
    by (subst s') (simp add: written_def fflush_stdout_def)
  ultimately show ?thesis
    using s' by (simp add: fo_scheduler_current_def text_at_def)
qed

text \<open>C2 at end-of-file and at the line \<open>CLOSE\<close> read after a data line.\<close>

theorem close_or_eof_witness:
  "(stdin session0 = LNil \<or> (\<exists>rest. stdin session0 = prepend ''CLOSE'' rest))
   \<and> (\<exists>s'. fo_scheduler_next ''SVN_REV Unknown'' session0 = Some (NULL, s')
          \<and> fo_scheduler_current s' = NULL
          \<and> text_at s' (fo_scheduler_current s') = None
          \<and> s' = (fflush_stdout session0)\<lparr>buffer := buffer s', stdin := stdin s', valid := 0\<rparr>
          \<and> written s' = written session0)
   \<and> (stdin (session0\<lparr>valid := 1, stdin := prepend ''CLOSE\<newline>'' LNil\<rparr>) = LNil
        \<or> (\<exists>rest. stdin (session0\<lparr>valid := 1, stdin := prepend ''CLOSE\<newline>'' LNil\<rparr>)
                   = prepend ''CLOSE'' rest))
   \<and> (\<exists>s'. fo_scheduler_next ''SVN_REV Unknown''
               (session0\<lparr>valid := 1, stdin := prepend ''CLOSE\<newline>'' LNil\<rparr>) = Some (NULL, s')
          \<and> fo_scheduler_current s' = NULL
          \<and> text_at s' (fo_scheduler_current s') = None
          \<and> s' = (fflush_stdout (session0\<lparr>valid := 1, stdin := prepend ''CLOSE\<newline>'' LNil\<rparr>))
                   \<lparr>buffer := buffer s', stdin := stdin s', valid := 0\<rparr>
          \<and> written s' = written (session0\<lparr>valid := 1, stdin := prepend ''CLOSE\<newline>'' LNil\<rparr>))"
  using close_or_eof [of session0 "''SVN_REV Unknown''"]
        close_or_eof [of "session0\<lparr>valid := 1, stdin := prepend ''CLOSE\<newline>'' LNil\<rparr>"
                         "''SVN_REV Unknown''"]
  by (simp add: session0_def)

section \<open>The END line (C3)\<close>

lemma end_then_data_run:
  assumes "stdin s = prepend ''END\<newline>baz.txt\<newline>'' rest"
  shows "\<exists>s'. fo_scheduler_next svn_rev s = Some (Buffer, s')
              \<and> text_at s' Buffer = Some ''baz.txt\<newline>''
              \<and> written s' = written s @ ''OK\<newline>''
              \<and> stdout_sent s' = written s @ ''OK\<newline>''
              \<and> stdin s' = rest"
proof -
  have i1: "stdin s = prepend (''END'' @ [newline]) (prepend ''baz.txt\<newline>'' rest)"
    using assms by (simp add: newline_def)
  have c1: "classify (''END'' @ [newline]) = End"
    by (simp add: classify_def starts_with_def)
  obtain s1 where b1: "next_body svn_rev s = Recursed s1"
    and in1: "stdin s1 = prepend (''baz.txt'' @ [newline]) rest"
    and w1: "stdout_sent s1 = written s @ ''OK\<newline>''" and p1: "stdout_pending s1 = []"
    using next_body_prepend [OF i1, of svn_rev] c1
    by (simp add: newline_def NUL_def BUFSIZE_def fflush_stdout_def fprintf_stdout_def
                  written_def)
  have c2: "classify (''baz.txt'' @ [newline]) = Data"
    by (simp add: classify_def starts_with_def)
  obtain s2 where b2: "next_body svn_rev s1 = Returned Buffer s2"
    and in2: "stdin s2 = rest" and w2: "stdout_sent s2 = written s @ ''OK\<newline>''"
    and p2: "stdout_pending s2 = []"
    and buf: "\<exists>t. buffer s2 = (''baz.txt'' @ [newline]) @ NUL # t"
    using next_body_prepend [OF in1, of svn_rev] c2 w1 p1
    by (simp add: newline_def NUL_def BUFSIZE_def fflush_stdout_def)
  have "fo_scheduler_next svn_rev s = Some (Buffer, s2)"
    by (subst next_unfold, simp add: b1, subst next_unfold, simp add: b2)
  moreover have "c_str (buffer s2) = ''baz.txt'' @ [newline]"
    using buf c_str_terminated [of "''baz.txt'' @ [newline]"]
    by (auto simp: NUL_def newline_def)
  ultimately show ?thesis
    using in2 w2 p2 by (simp add: text_at_def written_def newline_def)
qed

text \<open>
  C3, as amended: on the input \<open>END\<close>, newline, \<open>baz.txt\<close>, newline, one call of
  \<open>fo_scheduler_next\<close> writes exactly one \<open>OK\<close> line to the outbound stream (flushed) and
  returns the second line with its newline; the END line is not returned.
\<close>

theorem end_then_data:
  assumes "stdin s = prepend ''END\<newline>baz.txt\<newline>'' rest"
  shows "\<exists>s'. fo_scheduler_next svn_rev s = Some (Buffer, s')
              \<and> text_at s' Buffer = Some ''baz.txt\<newline>''
              \<and> written s' = written s @ ''OK\<newline>''
              \<and> stdout_sent s' = written s @ ''OK\<newline>''
              \<and> stdin s' = rest"
  using assms by (rule end_then_data_run)

text \<open>C3 for a process that has written nothing before.\<close>

theorem end_then_data_witness:
  "stdin (session0\<lparr>stdin := prepend ''END\<newline>baz.txt\<newline>'' LNil\<rparr>)
     = prepend ''END\<newline>baz.txt\<newline>'' LNil
   \<and> (\<exists>s'. fo_scheduler_next ''SVN_REV Unknown''
               (session0\<lparr>stdin := prepend ''END\<newline>baz.txt\<newline>'' LNil\<rparr>) = Some (Buffer, s')
          \<and> text_at s' Buffer = Some ''baz.txt\<newline>''
          \<and> written s' = ''OK\<newline>''
          \<and> stdout_sent s' = ''OK\<newline>''
          \<and> stdin s' = LNil)"
  using end_then_data [of "session0\<lparr>stdin := prepend ''END\<newline>baz.txt\<newline>'' LNil\<rparr>" LNil
                          "''SVN_REV Unknown''"]
  by (simp add: session0_def written_def)

text \<open>
  C3 as it is stated fails: the text returned is not \<open>baz.txt\<close>, since \<open>fgets\<close> keeps the
  newline of the line.
\<close>

theorem end_then_data_not_stripped:
  "map_option result_text
     (fo_scheduler_next ''SVN_REV Unknown''
        (session0\<lparr>stdin := prepend ''END\<newline>baz.txt\<newline>'' LNil\<rparr>))
   \<noteq> Some (Some ''baz.txt'')"
proof -
  obtain s' where
    "fo_scheduler_next ''SVN_REV Unknown''
       (session0\<lparr>stdin := prepend ''END\<newline>baz.txt\<newline>'' LNil\<rparr>) = Some (Buffer, s')"
    and "text_at s' Buffer = Some ''baz.txt\<newline>''"
    using end_then_data_run [of "session0\<lparr>stdin := prepend ''END\<newline>baz.txt\<newline>'' LNil\<rparr>"
                                LNil "''SVN_REV Unknown''"]
    by auto
  then show ?thesis by (simp add: result_text_def)
qed

section \<open>The VERBOSE line (C4)\<close>

lemma atoi_digits_terminated:
  "atoi_digits acc (x @ NUL # t) = atoi_digits acc x"
  by (induction x arbitrary: acc) (simp_all add: isdigit_def NUL_def)

lemma dropWhile_isspace_terminated:
  "dropWhile isspace (x @ NUL # t) = dropWhile isspace x @ NUL # t"
  by (induction x) (simp_all add: isspace_def NUL_def)

lemma number_read_terminated: "number_read (x @ NUL # t) = number_read x"
proof (cases "dropWhile isspace x")
  case Nil
  have "atoi_digits 0 (NUL # t) = 0" "NUL \<noteq> CHR ''-''" "NUL \<noteq> CHR ''+''"
    by (simp_all add: NUL_def isdigit_def)
  then show ?thesis
    unfolding number_read_def dropWhile_isspace_terminated Nil by simp
next
  case (Cons c cs)
  then show ?thesis
    using atoi_digits_terminated [of 0 cs t] atoi_digits_terminated [of 0 "c # cs" t]
    by (simp add: number_read_def dropWhile_isspace_terminated)
qed

lemma atoi_terminated: "atoi (x @ NUL # t) = atoi x"
  by (simp add: atoi_def strtol_def number_read_terminated)

lemma sign_not_digit: "\<not> isdigit (CHR ''-'')" "\<not> isdigit (CHR ''+'')"
  by (simp_all add: isdigit_def)

lemma number_read_non_numeric:
  assumes "non_numeric x"
  shows "number_read x = 0"
proof (cases "dropWhile isspace x")
  case Nil
  show ?thesis unfolding number_read_def Nil by simp
next
  case (Cons c cs)
  from assms have "if c = CHR ''-'' \<or> c = CHR ''+''
                   then (case cs of [] \<Rightarrow> True | d # _ \<Rightarrow> \<not> isdigit d)
                   else \<not> isdigit c"
    unfolding non_numeric_def Cons by simp
  then show ?thesis
    unfolding number_read_def Cons by (cases cs) (auto split: if_splits)
qed

lemma atoi_non_numeric: "non_numeric x \<Longrightarrow> atoi x = 0"
  by (simp add: atoi_def strtol_def number_read_non_numeric LONG_MAX_def LONG_MIN_def)

lemma verbose_line:
  assumes inp: "stdin s = prepend (''VERBOSE'' @ tail @ [newline]) rest"
    and nl: "newline \<notin> set tail"
    and fits: "length tail + 8 < BUFSIZE"
  shows "\<exists>s1. next_body svn_rev s = Recursed s1
              \<and> fo_scheduler_next svn_rev s = fo_scheduler_next svn_rev s1
              \<and> verbose s1 = atoi (drop 8 (''VERBOSE'' @ tail @ [newline]))
              \<and> valid s1 = 0
              \<and> stdin s1 = rest
              \<and> written s1 = written s"
proof -
  let ?l = "''VERBOSE'' @ tail"
  have i: "stdin s = prepend (?l @ [newline]) rest" using inp by simp
  have n: "newline \<notin> set ?l" using nl by (simp add: newline_def)
  have f: "length ?l + 1 < BUFSIZE" using fits by simp
  have c: "classify (?l @ [newline]) = Verbose"
    by (simp add: classify_def starts_with_def)
  let ?s1 = "(fflush_stdout s)\<lparr>buffer := (?l @ [newline]) @ NUL # drop (length ?l + 2) (buffer s),
                                stdin := rest\<rparr>"
  let ?s2 = "?s1\<lparr>verbose := atoi (drop 8 (buffer ?s1)), valid := 0\<rparr>"
  have b: "next_body svn_rev s = Recursed ?s2"
    using next_body_prepend [OF i n f, of svn_rev] c by (simp add: Let_def)
  have d: "drop 8 (buffer ?s1) = drop 1 (tail @ [newline]) @ NUL # drop (length ?l + 2) (buffer s)"
    by (cases tail) simp_all
  have v: "verbose ?s2 = atoi (drop 1 (tail @ [newline]))"
    using atoi_terminated [of "drop 1 (tail @ [newline])"] d by simp
  have n: "fo_scheduler_next svn_rev s = fo_scheduler_next svn_rev ?s2"
    by (subst next_unfold) (simp add: b)
  have w: "written ?s2 = written s"
    by (simp add: written_def fflush_stdout_def)
  show ?thesis
    using b v n w by simp
qed

lemma verbose_then_data:
  assumes "stdin s = prepend ''VERBOSE 5\<newline>bar.txt\<newline>'' rest"
  shows "\<exists>s'. fo_scheduler_next svn_rev s = Some (Buffer, s')
              \<and> verbose s' = 5
              \<and> text_at s' Buffer = Some ''bar.txt\<newline>''
              \<and> stdin s' = rest
              \<and> written s' = written s"
proof -
  have i1: "stdin s = prepend (''VERBOSE'' @ '' 5'' @ [newline]) (prepend (''bar.txt'' @ [newline]) rest)"
    using assms by (simp add: newline_def)
  obtain s1 where n1: "fo_scheduler_next svn_rev s = fo_scheduler_next svn_rev s1"
    and v1: "verbose s1 = atoi (drop 8 (''VERBOSE'' @ '' 5'' @ [newline]))"
    and in1: "stdin s1 = prepend (''bar.txt'' @ [newline]) rest"
    and w1: "written s1 = written s"
    using verbose_line [OF i1, of svn_rev] by (auto simp: newline_def BUFSIZE_def)
  have v5: "verbose s1 = 5"
    using v1 by (simp add: atoi_def strtol_def number_read_def LONG_MAX_def LONG_MIN_def
                  isspace_def isdigit_def newline_def)
  have c2: "classify (''bar.txt'' @ [newline]) = Data"
    by (simp add: classify_def starts_with_def)
  obtain s2 where b2: "next_body svn_rev s1 = Returned Buffer s2"
    and in2: "stdin s2 = rest" and v2: "verbose s2 = 5" and w2: "written s2 = written s"
    and buf: "\<exists>t. buffer s2 = (''bar.txt'' @ [newline]) @ NUL # t"
    using next_body_prepend [OF in1, of svn_rev] c2 v5 w1
    by (simp add: newline_def NUL_def BUFSIZE_def fflush_stdout_def written_def)
  have "fo_scheduler_next svn_rev s = Some (Buffer, s2)"
    unfolding n1 by (subst next_unfold) (simp add: b2)
  moreover have "c_str (buffer s2) = ''bar.txt'' @ [newline]"
    using buf c_str_terminated [of "''bar.txt'' @ [newline]"]
    by (auto simp: NUL_def newline_def)
  ultimately show ?thesis
    using in2 v2 w2 by (simp add: text_at_def newline_def)
qed

lemma verbose_numeral:
  assumes inp: "stdin u = prepend (''VERBOSE'' @ sep # fmt_d i @ [newline]) q"
    and sep: "sep \<noteq> newline"
  shows "\<exists>u1. next_body svn_rev u = Recursed u1
              \<and> fo_scheduler_next svn_rev u = fo_scheduler_next svn_rev u1
              \<and> verbose u1 = i \<and> valid u1 = 0 \<and> stdin u1 = q"
proof -
  have i: "stdin u = prepend (''VERBOSE'' @ (sep # fmt_d i) @ [newline]) q"
    using inp by simp
  have n: "newline \<notin> set (sep # fmt_d i)"
    using sep fmt_d_no_newline [of i] by auto
  have f: "length (sep # fmt_d i) + 8 < BUFSIZE"
    using fmt_d_length [of i] by (simp add: BUFSIZE_def)
  have "\<not> isdigit newline" by (simp add: isdigit_def newline_def)
  then have "atoi (fmt_d i @ newline # []) = i" by (rule atoi_fmt_d)
  then have a: "atoi (drop 8 (''VERBOSE'' @ (sep # fmt_d i) @ [newline])) = i" by simp
  from verbose_line [OF i n f, of svn_rev] show ?thesis
    unfolding a by blast
qed

text \<open>
  C4, as amended: on a newline-terminated line that begins with VERBOSE and fits the buffer,
  \<open>fo_scheduler_next\<close> sets \<open>verbose\<close> to what \<open>atoi\<close> reads behind the eighth byte of the
  line (the word VERBOSE and one separator), marks the buffer as not valid and calls itself
  on the rest of the stream, so the line is not returned. When no number stands there the
  verbosity becomes 0; when the decimal form of an \<open>int\<close> stands there, it becomes that
  \<open>int\<close>. On the input \<open>VERBOSE 5\<close>, newline, \<open>bar.txt\<close>, newline, the call returns the
  second line with its newline, and \<open>verbose\<close> is 5.
\<close>

theorem verbose_sets_verbosity:
  "(stdin s = prepend (''VERBOSE'' @ tail @ [newline]) rest \<and> newline \<notin> set tail
      \<and> length tail + 8 < BUFSIZE \<longrightarrow>
      (\<exists>s1. next_body svn_rev s = Recursed s1
            \<and> fo_scheduler_next svn_rev s = fo_scheduler_next svn_rev s1
            \<and> verbose s1 = atoi (drop 8 (''VERBOSE'' @ tail @ [newline]))
            \<and> (non_numeric (drop 8 (''VERBOSE'' @ tail @ [newline])) \<longrightarrow> verbose s1 = 0)
            \<and> valid s1 = 0
            \<and> stdin s1 = rest))
   \<and> (stdin u = prepend (''VERBOSE'' @ sep # fmt_d i @ [newline]) q \<and> sep \<noteq> newline \<longrightarrow>
      (\<exists>u1. next_body svn_rev u = Recursed u1
            \<and> fo_scheduler_next svn_rev u = fo_scheduler_next svn_rev u1
            \<and> verbose u1 = i
            \<and> valid u1 = 0
            \<and> stdin u1 = q))
   \<and> (stdin t = prepend ''VERBOSE 5\<newline>bar.txt\<newline>'' r \<longrightarrow>
      (\<exists>t'. fo_scheduler_next svn_rev t = Some (Buffer, t')
            \<and> verbose t' = 5
            \<and> text_at t' Buffer = Some ''bar.txt\<newline>''
            \<and> stdin t' = r))"
proof (intro conjI impI)
  assume a: "stdin s = prepend (''VERBOSE'' @ tail @ [newline]) rest \<and> newline \<notin> set tail
      \<and> length tail + 8 < BUFSIZE"
  then obtain s1 where "next_body svn_rev s = Recursed s1"
    "fo_scheduler_next svn_rev s = fo_scheduler_next svn_rev s1"
    "verbose s1 = atoi (drop 8 (''VERBOSE'' @ tail @ [newline]))"
    "valid s1 = 0" "stdin s1 = rest"
    using verbose_line [of s tail rest svn_rev] by blast
  then show "\<exists>s1. next_body svn_rev s = Recursed s1
            \<and> fo_scheduler_next svn_rev s = fo_scheduler_next svn_rev s1
            \<and> verbose s1 = atoi (drop 8 (''VERBOSE'' @ tail @ [newline]))
            \<and> (non_numeric (drop 8 (''VERBOSE'' @ tail @ [newline])) \<longrightarrow> verbose s1 = 0)
            \<and> valid s1 = 0
            \<and> stdin s1 = rest"
    using atoi_non_numeric [of "drop 8 (''VERBOSE'' @ tail @ [newline])"] by auto
next
  assume "stdin u = prepend (''VERBOSE'' @ sep # fmt_d i @ [newline]) q \<and> sep \<noteq> newline"
  then show "\<exists>u1. next_body svn_rev u = Recursed u1
            \<and> fo_scheduler_next svn_rev u = fo_scheduler_next svn_rev u1
            \<and> verbose u1 = i
            \<and> valid u1 = 0
            \<and> stdin u1 = q"
    using verbose_numeral [of u sep i q svn_rev] by blast
next
  assume "stdin t = prepend ''VERBOSE 5\<newline>bar.txt\<newline>'' r"
  from verbose_then_data [OF this, of svn_rev]
  show "\<exists>t'. fo_scheduler_next svn_rev t = Some (Buffer, t')
            \<and> verbose t' = 5
            \<and> text_at t' Buffer = Some ''bar.txt\<newline>''
            \<and> stdin t' = r"
    by blast
qed

text \<open>
  C4 on the line \<open>VERBOSE high\<close>, read while \<open>verbose\<close> is 3 (the verbosity becomes 0), on
  the line \<open>VERBOSE -12\<close>, and on the input of the claim.
\<close>

theorem verbose_sets_verbosity_witness:
  "(stdin (session0\<lparr>verbose := 3, stdin := prepend ''VERBOSE high\<newline>'' LNil\<rparr>)
      = prepend (''VERBOSE'' @ '' high'' @ [newline]) LNil
    \<and> newline \<notin> set '' high'' \<and> length '' high'' + 8 < BUFSIZE)
   \<and> non_numeric (drop 8 (''VERBOSE'' @ '' high'' @ [newline]))
   \<and> (\<exists>s1. next_body ''SVN_REV Unknown''
               (session0\<lparr>verbose := 3, stdin := prepend ''VERBOSE high\<newline>'' LNil\<rparr>) = Recursed s1
          \<and> fo_scheduler_next ''SVN_REV Unknown''
               (session0\<lparr>verbose := 3, stdin := prepend ''VERBOSE high\<newline>'' LNil\<rparr>)
             = fo_scheduler_next ''SVN_REV Unknown'' s1
          \<and> verbose s1 = 0 \<and> valid s1 = 0 \<and> stdin s1 = LNil)
   \<and> fmt_d (- 12) = ''-12''
   \<and> (stdin (session0\<lparr>stdin := prepend ''VERBOSE -12\<newline>'' LNil\<rparr>)
        = prepend (''VERBOSE'' @ CHR '' '' # fmt_d (- 12) @ [newline]) LNil
      \<and> CHR '' '' \<noteq> newline)
   \<and> (\<exists>u1. next_body ''SVN_REV Unknown''
               (session0\<lparr>stdin := prepend ''VERBOSE -12\<newline>'' LNil\<rparr>) = Recursed u1
          \<and> fo_scheduler_next ''SVN_REV Unknown''
               (session0\<lparr>stdin := prepend ''VERBOSE -12\<newline>'' LNil\<rparr>)
             = fo_scheduler_next ''SVN_REV Unknown'' u1
          \<and> verbose u1 = - 12 \<and> valid u1 = 0 \<and> stdin u1 = LNil)
   \<and> stdin (session0\<lparr>stdin := prepend ''VERBOSE 5\<newline>bar.txt\<newline>'' LNil\<rparr>)
        = prepend ''VERBOSE 5\<newline>bar.txt\<newline>'' LNil
   \<and> (\<exists>t'. fo_scheduler_next ''SVN_REV Unknown''
               (session0\<lparr>stdin := prepend ''VERBOSE 5\<newline>bar.txt\<newline>'' LNil\<rparr>) = Some (Buffer, t')
          \<and> verbose t' = 5
          \<and> text_at t' Buffer = Some ''bar.txt\<newline>''
          \<and> stdin t' = LNil)"
proof -
  have n: "non_numeric (drop 8 (''VERBOSE'' @ '' high'' @ [newline]))"
    by (simp add: non_numeric_def isspace_def isdigit_def newline_def)
  have h: "stdin (session0\<lparr>verbose := 3, stdin := prepend ''VERBOSE high\<newline>'' LNil\<rparr>)
             = prepend (''VERBOSE'' @ '' high'' @ [newline]) LNil
           \<and> newline \<notin> set '' high'' \<and> length '' high'' + 8 < BUFSIZE"
    by (simp add: newline_def BUFSIZE_def)
  have f: "fmt_d (- 12) = ''-12''"
    by (simp add: fmt_d_def decimal.simps)
  have j: "stdin (session0\<lparr>stdin := prepend ''VERBOSE -12\<newline>'' LNil\<rparr>)
             = prepend (''VERBOSE'' @ CHR '' '' # fmt_d (- 12) @ [newline]) LNil
           \<and> CHR '' '' \<noteq> newline"
    unfolding f by (simp add: newline_def)
  have k: "stdin (session0\<lparr>stdin := prepend ''VERBOSE 5\<newline>bar.txt\<newline>'' LNil\<rparr>)
             = prepend ''VERBOSE 5\<newline>bar.txt\<newline>'' LNil"
    by simp
  show ?thesis
    using n h f j k
      verbose_sets_verbosity
        [where s = "session0\<lparr>verbose := 3, stdin := prepend ''VERBOSE high\<newline>'' LNil\<rparr>"
           and tail = "'' high''" and rest = LNil and svn_rev = "''SVN_REV Unknown''"
           and u = "session0\<lparr>stdin := prepend ''VERBOSE -12\<newline>'' LNil\<rparr>"
           and sep = "CHR '' ''" and i = "- 12" and q = LNil
           and t = "session0\<lparr>stdin := prepend ''VERBOSE 5\<newline>bar.txt\<newline>'' LNil\<rparr>"
           and r = LNil]
    by blast
qed

text \<open>
  C4 as it is stated fails on its own example: the text returned is not \<open>bar.txt\<close>, since
  \<open>fgets\<close> keeps the newline of the line.
\<close>

theorem verbose_then_data_not_stripped:
  "map_option result_text
     (fo_scheduler_next ''SVN_REV Unknown''
        (session0\<lparr>stdin := prepend ''VERBOSE 5\<newline>bar.txt\<newline>'' LNil\<rparr>))
   \<noteq> Some (Some ''bar.txt'')"
proof -
  obtain s' where
    "fo_scheduler_next ''SVN_REV Unknown''
       (session0\<lparr>stdin := prepend ''VERBOSE 5\<newline>bar.txt\<newline>'' LNil\<rparr>) = Some (Buffer, s')"
    and "text_at s' Buffer = Some ''bar.txt\<newline>''"
    using verbose_then_data [of "session0\<lparr>stdin := prepend ''VERBOSE 5\<newline>bar.txt\<newline>'' LNil\<rparr>"
                                LNil "''SVN_REV Unknown''"]
    by auto
  then show ?thesis by (simp add: result_text_def)
qed

text \<open>
  A line that consists of the word VERBOSE alone and is cut off by end-of-file, with no
  newline, is shorter than eight bytes: \<open>atoi(&buffer[8])\<close> then reads behind the NUL of the
  line, where the bytes of an earlier line are left. After the data line \<open>file_no_77\<close> the
  verbosity becomes 77.
\<close>

lemma verbose_cut_off_reads_old_bytes:
  "\<exists>s1 s2. fo_scheduler_next ''SVN_REV Unknown''
              (session0\<lparr>stdin := prepend ''file_no_77\<newline>VERBOSE'' LNil\<rparr>) = Some (Buffer, s1)
           \<and> verbose s1 = 0
           \<and> fo_scheduler_next ''SVN_REV Unknown'' s1 = Some (NULL, s2)
           \<and> verbose s2 = 77"
proof -
  let ?r = "''SVN_REV Unknown''"
  let ?s0 = "session0\<lparr>stdin := prepend ''file_no_77\<newline>VERBOSE'' LNil\<rparr>"
  define s1 where "s1 = outcome_state (next_body ?r ?s0)"
  define s2 where "s2 = outcome_state (next_body ?r s1)"
  define s3 where "s3 = outcome_state (next_body ?r s2)"
  have r0: "read_chunk (stdin ?s0) = Some (''file_no_77\<newline>'', prepend ''VERBOSE'' LNil)"
    by (simp add: read_chunk_def BUFSIZE_def fgets_read_numeral newline_def)
  have c0: "classify ''file_no_77\<newline>'' = Data"
    by (simp add: classify_def starts_with_def)
  have b0: "next_body ?r ?s0 = Returned Buffer s1"
    unfolding s1_def using next_body_line [OF r0, of ?r] c0 by (simp add: Let_def)
  have i1: "stdin s1 = prepend ''VERBOSE'' LNil" and v1: "verbose s1 = 0"
    and "\<exists>t. buffer s1 = ''file_no_77\<newline>'' @ NUL # t"
    unfolding s1_def using next_body_line [OF r0, of ?r] c0
    by (simp_all add: Let_def fflush_stdout_def session0_def)
  then obtain t where t: "buffer s1 = ''file_no_77\<newline>'' @ NUL # t"
    by blast
  have r1: "read_chunk (stdin s1) = Some (''VERBOSE'', LNil)"
    unfolding i1 by (simp add: read_chunk_def BUFSIZE_def fgets_read_numeral newline_def)
  have c1: "classify ''VERBOSE'' = Verbose"
    by (simp add: classify_def starts_with_def)
  have "atoi (''77\<newline>'' @ NUL # t) = atoi ''77\<newline>''"
    by (rule atoi_terminated)
  then have a: "atoi (''77\<newline>'' @ NUL # t) = 77"
    by (simp add: atoi_def strtol_def number_read_def LONG_MAX_def LONG_MIN_def
                  isspace_def isdigit_def)
  have b1: "next_body ?r s1 = Recursed s2"
    unfolding s2_def using next_body_line [OF r1, of ?r] c1 by (simp add: Let_def)
  have i2: "stdin s2 = LNil" and v2: "verbose s2 = 77"
    unfolding s2_def using next_body_line [OF r1, of ?r] c1 a
    by (simp_all add: Let_def fflush_stdout_def t)
  have r2: "read_chunk (stdin s2) = None"
    unfolding i2 by (rule read_chunk_LNil)
  have b2: "next_body ?r s2 = Returned NULL s3"
    unfolding s3_def using next_body_eof [OF r2, of ?r] by simp
  have v3: "verbose s3 = 77"
    unfolding s3_def using next_body_eof [OF r2, of ?r] v2 by (simp add: fflush_stdout_def)
  have "fo_scheduler_next ?r ?s0 = Some (Buffer, s1)"
    by (subst next_unfold, subst b0, simp)
  moreover have "fo_scheduler_next ?r s1 = Some (NULL, s3)"
    by (subst next_unfold, subst b1, simp, subst next_unfold, subst b2, simp)
  ultimately show ?thesis
    using v1 v3 by blast
qed

section \<open>Connecting (C5, C10)\<close>

lemma connect_with_sentinel:
  assumes "argv = map Some args @ Some ''--scheduler_start'' # others"
    and "argc = int (length args) + 1"
  shows "fo_scheduler_connect svn_rev secs argc argv s =
           Some (argc - 1, map Some args @ None # others,
                 s\<lparr>found := 1, items_processed := 0, buffer := replicate BUFSIZE NUL,
                   valid := 0, verbose := 0,
                   stdout_sent := written s @ svn_rev @ [newline] @ ''OK\<newline>'',
                   stdout_pending := [], sigalrm := Fo_heartbeat, alarm := secs\<rparr>)"
proof -
  have n: "nat (argc - 1) = length args" using assms(2) by simp
  have "argv ! nat (argc - 1) = Some ''--scheduler_start''"
    unfolding n assms(1) by (simp add: nth_append)
  moreover have "argv[nat (argc - 1) := None] = map Some args @ None # others"
    unfolding n assms(1) by (simp add: list_update_append)
  moreover have "\<not> (argc - 1 < 0 \<or> int (length argv) \<le> argc - 1)"
    using assms by simp
  ultimately show ?thesis
    by (simp add: fo_scheduler_connect_def Let_def fprintf_stdout_def fflush_stdout_def
                  written_def)
qed

text \<open>
  C5: called with \<open>--scheduler_start\<close> as the last argument, \<open>fo_scheduler_connect\<close> writes
  the version line and then the line \<open>OK\<close> to the outbound stream, takes the sentinel off
  the argument list (its place holds NULL) and leaves \<open>argc\<close> smaller by exactly one.
\<close>

theorem connect_handshake:
  assumes "argv = map Some args @ Some ''--scheduler_start'' # others"
    and "argc = int (length args) + 1"
  shows "\<exists>argv' s'. fo_scheduler_connect svn_rev secs argc argv s = Some (argc - 1, argv', s')
           \<and> take (nat (argc - 1)) argv' = map Some args
           \<and> argv' = map Some args @ None # others
           \<and> stdout_sent s' = written s @ svn_rev @ [newline] @ ''OK\<newline>''
           \<and> stdout_pending s' = []
           \<and> found s' = 1 \<and> sigalrm s' = Fo_heartbeat \<and> alarm s' = secs"
  using connect_with_sentinel [OF assms, of svn_rev secs s] assms(2) by simp

text \<open>C5 for an agent started as \<open>agent -v --scheduler_start\<close>.\<close>

theorem connect_handshake_witness:
  "[Some ''agent'', Some ''-v'', Some ''--scheduler_start'', None]
     = map Some [''agent'', ''-v''] @ Some ''--scheduler_start'' # [None]
   \<and> (3 :: int) = int (length [''agent'', ''-v'']) + 1
   \<and> (\<exists>argv' s'. fo_scheduler_connect ''SVN_REV Unknown'' 30 3
                     [Some ''agent'', Some ''-v'', Some ''--scheduler_start'', None] session0
                   = Some (2, argv', s')
           \<and> take 2 argv' = [Some ''agent'', Some ''-v'']
           \<and> argv' = [Some ''agent'', Some ''-v'', None, None]
           \<and> stdout_sent s' = ''SVN_REV Unknown\<newline>OK\<newline>''
           \<and> stdout_pending s' = []
           \<and> found s' = 1 \<and> sigalrm s' = Fo_heartbeat \<and> alarm s' = 30)"
  using connect_handshake [of "[Some ''agent'', Some ''-v'', Some ''--scheduler_start'', None]"
                              "[''agent'', ''-v'']" "[None]" 3 "''SVN_REV Unknown''" 30 session0]
  by (simp add: session0_def written_def newline_def)

lemma connect_defined:
  assumes "0 < argc" and "argc \<le> int (length argv)" and "argv ! nat (argc - 1) = Some a"
  shows "\<exists>argc' argv' s'. fo_scheduler_connect svn_rev secs argc argv s = Some (argc', argv', s')"
  using assms by (simp add: fo_scheduler_connect_def Let_def)

lemma connect_state:
  assumes "fo_scheduler_connect svn_rev secs argc argv s = Some (argc', argv', s')"
  shows "items_processed s' = 0 \<and> verbose s' = 0 \<and> buffer s' = replicate BUFSIZE NUL
         \<and> valid s' = 0"
  using assms
  by (auto simp: fo_scheduler_connect_def Let_def fprintf_stdout_def fflush_stdout_def
           split: if_splits option.splits)

text \<open>
  C10: wherever \<open>fo_scheduler_connect\<close> is defined (\<open>argv[argc - 1]\<close> is an argument), it
  returns, and whatever the state before and whether or not the sentinel is there, the item
  counter is 0, the verbosity is 0, the buffer is all NUL (the empty string) and the
  buffer counts as not valid afterwards.
\<close>

theorem connect_resets:
  assumes "0 < argc" and "argc \<le> int (length argv)" and "argv ! nat (argc - 1) = Some a"
  shows "\<exists>argc' argv' s'. fo_scheduler_connect svn_rev secs argc argv s = Some (argc', argv', s')
           \<and> items_processed s' = 0 \<and> verbose s' = 0
           \<and> buffer s' = replicate BUFSIZE NUL \<and> c_str (buffer s') = []
           \<and> valid s' = 0 \<and> fo_scheduler_current s' = NULL
           \<and> found s' = (if a = ''--scheduler_start'' then 1 else 0)"
proof -
  obtain argc' argv' s' where
    c: "fo_scheduler_connect svn_rev secs argc argv s = Some (argc', argv', s')"
    using connect_defined [OF assms] by blast
  from connect_state [OF c] have
    st: "items_processed s' = 0 \<and> verbose s' = 0 \<and> buffer s' = replicate BUFSIZE NUL
         \<and> valid s' = 0" .
  then have "c_str (buffer s') = []"
    by (simp add: c_str_def BUFSIZE_def)
  moreover have "fo_scheduler_current s' = NULL"
    using st by (simp add: fo_scheduler_current_def)
  moreover have "found s' = (if a = ''--scheduler_start'' then 1 else 0)"
    using c assms
    by (auto simp: fo_scheduler_connect_def Let_def fprintf_stdout_def fflush_stdout_def
             split: if_splits)
  ultimately show ?thesis using c st by simp
qed

text \<open>C10 from a used session, without and with the sentinel.\<close>

theorem connect_resets_witness:
  "(0 :: int) < 1 \<and> (1 :: int) \<le> int (length [Some ''agent'', None])
   \<and> [Some ''agent'', None] ! nat (1 - 1) = Some ''agent''
   \<and> (\<exists>argc' argv' s'.
         fo_scheduler_connect ''SVN_REV Unknown'' 30 1 [Some ''agent'', None]
           (session0\<lparr>items_processed := 9, buffer := ''old'', valid := 1, verbose := 2\<rparr>)
         = Some (argc', argv', s')
       \<and> items_processed s' = 0 \<and> verbose s' = 0
       \<and> buffer s' = replicate BUFSIZE NUL \<and> c_str (buffer s') = []
       \<and> valid s' = 0 \<and> fo_scheduler_current s' = NULL
       \<and> found s' = 0)
   \<and> (0 :: int) < 2 \<and> (2 :: int) \<le> int (length [Some ''agent'', Some ''--scheduler_start'', None])
   \<and> [Some ''agent'', Some ''--scheduler_start'', None] ! nat (2 - 1) = Some ''--scheduler_start''
   \<and> (\<exists>argc' argv' s'.
         fo_scheduler_connect ''SVN_REV Unknown'' 30 2
           [Some ''agent'', Some ''--scheduler_start'', None]
           (session0\<lparr>items_processed := 9, buffer := ''old'', valid := 1, verbose := 2\<rparr>)
         = Some (argc', argv', s')
       \<and> items_processed s' = 0 \<and> verbose s' = 0
       \<and> buffer s' = replicate BUFSIZE NUL \<and> c_str (buffer s') = []
       \<and> valid s' = 0 \<and> fo_scheduler_current s' = NULL
       \<and> found s' = 1)"
  using connect_resets [of 1 "[Some ''agent'', None]" "''agent''" "''SVN_REV Unknown''" 30
                           "session0\<lparr>items_processed := 9, buffer := ''old'', valid := 1, verbose := 2\<rparr>"]
        connect_resets [of 2 "[Some ''agent'', Some ''--scheduler_start'', None]"
                           "''--scheduler_start''" "''SVN_REV Unknown''" 30
                           "session0\<lparr>items_processed := 9, buffer := ''old'', valid := 1, verbose := 2\<rparr>"]
  by simp

section \<open>Progress and heartbeat (C6)\<close>

lemma atoi_fmt_d_alone: "atoi (fmt_d i) = i"
proof -
  have "\<not> isdigit NUL" by (simp add: isdigit_def NUL_def)
  then have "atoi (fmt_d i @ NUL # []) = i" by (rule atoi_fmt_d)
  then show ?thesis by (simp add: atoi_terminated)
qed

lemma heartbeat_line:
  "fo_heartbeat secs s =
     s\<lparr>stdout_sent := written s @ ''HEART: '' @ fmt_d (items_processed s) @ [newline],
       stdout_pending := [], alarm := secs\<rparr>"
  by (simp add: fo_heartbeat_def fflush_stdout_def fprintf_stdout_def written_def)

text \<open>
  C6: \<open>fo_scheduler_heart n\<close> adds \<open>n\<close> to the item counter; \<open>fo_heartbeat\<close> writes the
  line \<open>HEART:\<close> with the counter in decimal, which read back as a number is the counter,
  and leaves the counter as it is. Starting from 0, after \<open>fo_scheduler_heart 3\<close> and
  \<open>fo_scheduler_heart 4\<close> a heartbeat writes \<open>HEART: 7\<close>, and a second heartbeat right
  after it writes \<open>HEART: 7\<close> again.
\<close>

theorem heart_accumulates:
  "items_processed (fo_scheduler_heart n s) = items_processed s + n
   \<and> items_processed (fo_heartbeat secs s) = items_processed s
   \<and> stdout_sent (fo_heartbeat secs s)
       = written s @ ''HEART: '' @ fmt_d (items_processed s) @ [newline]
   \<and> atoi (fmt_d (items_processed s)) = items_processed s
   \<and> (items_processed s = 0 \<longrightarrow>
        stdout_sent (fo_heartbeat secs (fo_scheduler_heart 4 (fo_scheduler_heart 3 s)))
          = written s @ ''HEART: 7\<newline>''
        \<and> stdout_sent
            (fo_heartbeat secs (fo_heartbeat secs (fo_scheduler_heart 4 (fo_scheduler_heart 3 s))))
          = written s @ ''HEART: 7\<newline>HEART: 7\<newline>'')"
proof -
  have "fmt_d 7 = ''7''" by (simp add: fmt_d_def decimal.simps)
  then show ?thesis
    by (simp add: heartbeat_line fo_scheduler_heart_def written_def newline_def atoi_fmt_d_alone)
qed

text \<open>C6 for a process at its start, and heartbeats at the counters 1234 and -5.\<close>

theorem heart_accumulates_witness:
  "items_processed session0 = 0
   \<and> stdout_sent (fo_heartbeat 30 (fo_scheduler_heart 4 (fo_scheduler_heart 3 session0)))
       = ''HEART: 7\<newline>''
   \<and> stdout_sent
       (fo_heartbeat 30 (fo_heartbeat 30 (fo_scheduler_heart 4 (fo_scheduler_heart 3 session0))))
       = ''HEART: 7\<newline>HEART: 7\<newline>''
   \<and> items_processed (fo_scheduler_heart 1200 (session0\<lparr>items_processed := 34\<rparr>)) = 1234
   \<and> stdout_sent (fo_heartbeat 30 (session0\<lparr>items_processed := 1234\<rparr>)) = ''HEART: 1234\<newline>''
   \<and> atoi ''1234'' = 1234
   \<and> stdout_sent (fo_heartbeat 30 (session0\<lparr>items_processed := - 5\<rparr>)) = ''HEART: -5\<newline>''"
proof -
  have f: "fmt_d 1234 = ''1234''" "fmt_d (- 5) = ''-5''"
    by (simp_all add: fmt_d_def decimal.simps)
  show ?thesis
    using heart_accumulates [of 0 session0 30]
          heart_accumulates [of 1200 "session0\<lparr>items_processed := 34\<rparr>" 30]
          heart_accumulates [of 0 "session0\<lparr>items_processed := 1234\<rparr>" 30]
          heart_accumulates [of 0 "session0\<lparr>items_processed := - 5\<rparr>" 30]
    by (simp add: session0_def written_def f newline_def)
qed

section \<open>Disconnecting (C7)\<close>

text \<open>
  C7: \<open>fo_scheduler_disconnect\<close> ends the process with status 0 in every state; what the
  process has written ends with the line \<open>BYE\<close> if the session is connected (\<open>found\<close> is
  not 0), and nothing is added if it is not. The result is an exited process: there is no
  state in which a caller could go on.
\<close>

theorem disconnect_exits:
  "exit_status (fo_scheduler_disconnect s) = 0
   \<and> final_output (fo_scheduler_disconnect s)
       = written s @ (if found s \<noteq> 0 then ''BYE\<newline>'' else [])"
  by (simp add: fo_scheduler_disconnect_def exit_process_def fflush_stdout_def
                fprintf_stdout_def written_def)

text \<open>C7 for a connected and for a standalone session.\<close>

theorem disconnect_exits_witness:
  "exit_status (fo_scheduler_disconnect (session0\<lparr>found := 1\<rparr>)) = 0
   \<and> final_output (fo_scheduler_disconnect (session0\<lparr>found := 1\<rparr>)) = ''BYE\<newline>''
   \<and> exit_status (fo_scheduler_disconnect session0) = 0
   \<and> final_output (fo_scheduler_disconnect session0) = []"
  using disconnect_exits [of "session0\<lparr>found := 1\<rparr>"] disconnect_exits [of session0]
  by (simp add: session0_def written_def)

section \<open>When a call returns: runs of control reads\<close>

lemma control_reads_unique:
  "control_reads n inp \<Longrightarrow> control_reads m inp \<Longrightarrow> n = m"
proof (induction n arbitrary: m inp)
  case 0
  then show ?case by (cases m) (auto split: option.splits)
next
  case (Suc n)
  then show ?case by (cases m) (auto split: option.splits)
qed

lemma next_body_stdin:
  "stdin (outcome_state (next_body svn_rev s)) = after_reads (Suc 0) (stdin s)"
proof (cases "read_chunk (stdin s)")
  case None
  from next_body_eof [OF this] None show ?thesis by (simp add: fflush_stdout_def)
next
  case (Some a)
  obtain l rest where a: "a = (l, rest)" by (cases a)
  from next_body_line [OF Some [unfolded a], of svn_rev] Some a show ?thesis
    by (cases "classify l") (simp_all add: Let_def fflush_stdout_def fprintf_stdout_def)
qed

lemma next_body_recursed:
  "recursed (next_body svn_rev s) =
     (case read_chunk (stdin s) of None \<Rightarrow> False | Some (l, rest) \<Rightarrow> passed_through (classify l))"
proof (cases "read_chunk (stdin s)")
  case None
  from next_body_eof [OF this] None show ?thesis by simp
next
  case (Some a)
  obtain l rest where a: "a = (l, rest)" by (cases a)
  from next_body_line [OF Some [unfolded a], of svn_rev] Some a show ?thesis
    by (cases "classify l") (simp_all add: Let_def passed_through_def)
qed

lemma control_reads_returns:
  "control_reads n (stdin s) \<Longrightarrow>
   \<exists>p s'. fo_scheduler_next svn_rev s = Some (p, s') \<and> stdin s' = after_reads (Suc n) (stdin s)"
proof (induction n arbitrary: s)
  case 0
  then have "\<not> recursed (next_body svn_rev s)"
    by (auto simp: next_body_recursed split: option.splits)
  then obtain p s' where b: "next_body svn_rev s = Returned p s'"
    by (cases "next_body svn_rev s") simp_all
  have "stdin s' = after_reads (Suc 0) (stdin s)"
    using next_body_stdin [of svn_rev s] b by simp
  moreover have "fo_scheduler_next svn_rev s = Some (p, s')"
    by (subst next_unfold) (simp add: b)
  ultimately show ?case by blast
next
  case (Suc n)
  from Suc.prems obtain l rest where r: "read_chunk (stdin s) = Some (l, rest)"
    and c: "passed_through (classify l)" and run: "control_reads n rest"
    by (auto split: option.splits)
  have "recursed (next_body svn_rev s)"
    using r c by (simp add: next_body_recursed)
  then obtain s1 where b: "next_body svn_rev s = Recursed s1"
    by (cases "next_body svn_rev s") simp_all
  have i: "stdin s1 = rest"
    using next_body_stdin [of svn_rev s] b r by simp
  from Suc.IH [of s1] run i obtain p s' where
    "fo_scheduler_next svn_rev s1 = Some (p, s')" and "stdin s' = after_reads (Suc n) rest"
    by auto
  moreover have "fo_scheduler_next svn_rev s = fo_scheduler_next svn_rev s1"
    by (subst next_unfold) (simp add: b)
  ultimately show ?case using r by simp
qed

lemma next_body_unfold_with:
  "(let s = fflush_stdout s0
    in case fgets (buffer s) BUFSIZE (stdin s) of
         None \<Rightarrow> Some (NULL, s\<lparr>valid := 0\<rparr>)
       | Some (buf, rest) \<Rightarrow>
           let s = s\<lparr>buffer := buf, stdin := rest\<rparr>
           in if strncmp_eq (buffer s) ''CLOSE'' 5 then Some (NULL, s\<lparr>valid := 0\<rparr>)
              else if strncmp_eq (buffer s) ''END'' 3
              then f svn_rev (fflush_stdout (fprintf_stdout ''OK\<newline>'' s))
              else if strncmp_eq (buffer s) ''VERBOSE'' 7
              then f svn_rev (s\<lparr>verbose := atoi (drop 8 (buffer s)), valid := 0\<rparr>)
              else if strncmp_eq (buffer s) ''VERSION'' 7
              then f svn_rev ((fprintf_stdout (svn_rev @ [newline]) s)\<lparr>valid := 0\<rparr>)
              else Some (Buffer, s\<lparr>valid := 1\<rparr>)) =
   (case next_body svn_rev s0 of
      Returned p s' \<Rightarrow> Some (p, s')
    | Recursed s' \<Rightarrow> f svn_rev s')"
  by (simp add: next_body_def Let_def split: option.splits)

text \<open>Induction over the calls of \<open>fo_scheduler_next\<close> that return.\<close>

lemma next_induct:
  assumes major: "fo_scheduler_next svn_rev s = Some y"
    and ret: "\<And>s p s'. next_body svn_rev s = Returned p s' \<Longrightarrow> P s (p, s')"
    and rec: "\<And>s s1 y. next_body svn_rev s = Recursed s1 \<Longrightarrow> P s1 y \<Longrightarrow> P s y"
  shows "P s y"
proof -
  have "svn_rev = svn_rev \<longrightarrow> P s y"
  proof (rule fo_scheduler_next.raw_induct
           [where P = "\<lambda>r s y. r = svn_rev \<longrightarrow> P s y", OF _ major],
         unfold next_body_unfold_with)
    fix f r s0 z
    assume IH: "\<And>a b c. f a b = Some c \<Longrightarrow> a = svn_rev \<longrightarrow> P b c"
      and body: "(case next_body r s0 of
                    Returned p s' \<Rightarrow> Some (p, s')
                  | Recursed s' \<Rightarrow> f r s') = Some z"
    show "r = svn_rev \<longrightarrow> P s0 z"
    proof
      assume r: "r = svn_rev"
      show "P s0 z"
      proof (cases "next_body svn_rev s0")
        case (Returned p s')
        with body r have "z = (p, s')" by simp
        with ret [OF Returned] show ?thesis by simp
      next
        case (Recursed s1)
        with body r have "f svn_rev s1 = Some z" by simp
        from IH [OF this] have "P s1 z" by simp
        from rec [OF Recursed this] show ?thesis .
      qed
    qed
  qed
  then show ?thesis by simp
qed

text \<open>Without a run of control reads that ends, the call does not return.\<close>

lemma returns_control_reads:
  assumes "fo_scheduler_next svn_rev s = Some y"
  shows "\<exists>n. control_reads n (stdin s)"
  using assms
proof (rule next_induct)
  fix s p s'
  assume "next_body svn_rev s = Returned p s'"
  then have "\<not> recursed (next_body svn_rev s)" by simp
  then have "control_reads 0 (stdin s)"
    by (auto simp: next_body_recursed split: option.splits)
  then show "\<exists>n. control_reads n (stdin s)" by blast
next
  fix s s1 and y :: "char_ptr \<times> session"
  assume b: "next_body svn_rev s = Recursed s1" and "\<exists>n. control_reads n (stdin s1)"
  then obtain n where n: "control_reads n (stdin s1)" by blast
  from b have "recursed (next_body svn_rev s)" by simp
  then obtain l rest where r: "read_chunk (stdin s) = Some (l, rest)"
    and c: "passed_through (classify l)"
    by (auto simp: next_body_recursed split: option.splits)
  have "stdin s1 = rest"
    using next_body_stdin [of svn_rev s] b r by simp
  with n r c have "control_reads (Suc n) (stdin s)" by simp
  then show "\<exists>n. control_reads n (stdin s)" by blast
qed

lemma next_returns_iff:
  "(\<exists>y. fo_scheduler_next svn_rev s = Some y) = (\<exists>n. control_reads n (stdin s))"
  using returns_control_reads [of svn_rev s] control_reads_returns [of _ s svn_rev] by blast

section \<open>Runs of control lines (C9)\<close>

lemma prepend_append: "prepend (xs @ ys) r = prepend xs (prepend ys r)"
  by (induction xs) simp_all

lemma read_chunk_fitting:
  assumes "fitting_line l"
  shows "read_chunk (prepend l rest) = Some (l, rest)"
proof -
  from assms have l: "l = butlast l @ [newline]"
    unfolding fitting_line_def by (metis append_butlast_last_id)
  from assms have "newline \<notin> set (butlast l)" and "length (butlast l) + 1 < BUFSIZE"
    unfolding fitting_line_def by simp_all
  from read_chunk_prepend [OF this, of rest] l show ?thesis by simp
qed

lemma next_body_last:
  assumes r: "read_chunk (stdin s) = Some (l, rest)"
    and c: "\<not> passed_through (classify l)"
  shows "\<exists>s'. next_body svn_rev s = Returned (if classify l = Data then Buffer else NULL) s'
              \<and> stdin s' = rest \<and> take (length l) (buffer s') = l"
proof (cases "classify l")
  case Close
  with next_body_line [OF r, of svn_rev] show ?thesis by (simp add: Let_def)
next
  case Data
  with next_body_line [OF r, of svn_rev] show ?thesis by (simp add: Let_def)
qed (use c in \<open>simp_all add: passed_through_def\<close>)

lemma control_lines_then_line:
  assumes "\<forall>l\<in>set ctrl. fitting_line l \<and> passed_through (classify l)"
    and "fitting_line l'" and "\<not> passed_through (classify l')"
    and "stdin s = prepend (concat ctrl @ l') rest"
  shows "\<exists>s'. fo_scheduler_next svn_rev s
                 = Some (if classify l' = Data then Buffer else NULL, s')
              \<and> stdin s' = rest \<and> take (length l') (buffer s') = l'"
  using assms(1,4)
proof (induction ctrl arbitrary: s)
  case Nil
  then have "read_chunk (stdin s) = Some (l', rest)"
    using read_chunk_fitting [OF assms(2)] by simp
  from next_body_last [OF this assms(3), of svn_rev] obtain s' where
    b: "next_body svn_rev s = Returned (if classify l' = Data then Buffer else NULL) s'"
    and s': "stdin s' = rest" "take (length l') (buffer s') = l'"
    by blast
  have "fo_scheduler_next svn_rev s = Some (if classify l' = Data then Buffer else NULL, s')"
    by (subst next_unfold) (simp add: b)
  with s' show ?case by blast
next
  case (Cons l ctrl)
  then have fl: "fitting_line l" and pl: "passed_through (classify l)" by simp_all
  have "stdin s = prepend l (prepend (concat ctrl @ l') rest)"
    using Cons.prems(2) by (simp add: prepend_append)
  then have r: "read_chunk (stdin s) = Some (l, prepend (concat ctrl @ l') rest)"
    using read_chunk_fitting [OF fl] by simp
  have "recursed (next_body svn_rev s)"
    using r pl by (simp add: next_body_recursed)
  then obtain s1 where b: "next_body svn_rev s = Recursed s1"
    by (cases "next_body svn_rev s") simp_all
  have i: "stdin s1 = prepend (concat ctrl @ l') rest"
    using next_body_stdin [of svn_rev s] b r by simp
  have "fo_scheduler_next svn_rev s = fo_scheduler_next svn_rev s1"
    by (subst next_unfold) (simp add: b)
  with Cons.IH [OF _ i] Cons.prems(1) show ?case by simp
qed

lemma control_lines_then_eof:
  assumes "\<forall>l\<in>set ctrl. fitting_line l \<and> passed_through (classify l)"
    and "stdin s = prepend (concat ctrl) LNil"
  shows "\<exists>s'. fo_scheduler_next svn_rev s = Some (NULL, s') \<and> stdin s' = LNil"
  using assms
proof (induction ctrl arbitrary: s)
  case Nil
  then have r: "read_chunk (stdin s) = None" by (simp add: read_chunk_LNil)
  from next_body_eof [OF r, of svn_rev] Nil have
    "fo_scheduler_next svn_rev s = Some (NULL, (fflush_stdout s)\<lparr>valid := 0\<rparr>)"
    by (subst next_unfold) simp
  moreover have "stdin ((fflush_stdout s)\<lparr>valid := 0\<rparr>) = LNil"
    using Nil by (simp add: fflush_stdout_def)
  ultimately show ?case by blast
next
  case (Cons l ctrl)
  then have fl: "fitting_line l" and pl: "passed_through (classify l)" by simp_all
  have "stdin s = prepend l (prepend (concat ctrl) LNil)"
    using Cons.prems(2) by (simp add: prepend_append)
  then have r: "read_chunk (stdin s) = Some (l, prepend (concat ctrl) LNil)"
    using read_chunk_fitting [OF fl] by simp
  have "recursed (next_body svn_rev s)"
    using r pl by (simp add: next_body_recursed)
  then obtain s1 where b: "next_body svn_rev s = Recursed s1"
    by (cases "next_body svn_rev s") simp_all
  have i: "stdin s1 = prepend (concat ctrl) LNil"
    using next_body_stdin [of svn_rev s] b r by simp
  have "fo_scheduler_next svn_rev s = fo_scheduler_next svn_rev s1"
    by (subst next_unfold) (simp add: b)
  with Cons.IH [OF _ i] Cons.prems(1) show ?case by simp
qed

text \<open>
  C9, as amended: let the inbound stream start with a list \<open>ctrl\<close> of lines of the classes
  END, VERBOSE and VERSION, each of which fits the buffer. If a line \<open>l'\<close> of another
  class (data or CLOSE) that fits the buffer follows, one call of \<open>fo_scheduler_next\<close>
  returns, with the buffer holding \<open>l'\<close>, and leaves exactly what stands behind \<open>l'\<close>
  unread: it has consumed the whole run of control lines and one further line. If the
  stream ends behind the control lines, the call returns NULL at end-of-file, having
  consumed the control lines.
\<close>

theorem next_consumes_control_lines:
  assumes "\<forall>l\<in>set ctrl. fitting_line l \<and> passed_through (classify l)"
  shows "(fitting_line l' \<and> \<not> passed_through (classify l')
            \<and> stdin s = prepend (concat ctrl @ l') rest \<longrightarrow>
          (\<exists>s'. fo_scheduler_next svn_rev s
                   = Some (if classify l' = Data then Buffer else NULL, s')
                \<and> stdin s' = rest \<and> take (length l') (buffer s') = l'))
         \<and> (stdin s = prepend (concat ctrl) LNil \<longrightarrow>
          (\<exists>s'. fo_scheduler_next svn_rev s = Some (NULL, s') \<and> stdin s' = LNil))"
  using control_lines_then_line [OF assms, of l' s rest svn_rev]
        control_lines_then_eof [OF assms, of s svn_rev]
  by blast

text \<open>
  C9 on three control lines, a data line and one more line, which is left unread, and on
  two control lines before end-of-file.
\<close>

theorem next_consumes_control_lines_witness:
  "(fitting_line ''END\<newline>'' \<and> passed_through (classify ''END\<newline>'')
    \<and> fitting_line ''VERBOSE 2\<newline>'' \<and> passed_through (classify ''VERBOSE 2\<newline>'')
    \<and> fitting_line ''VERSION\<newline>'' \<and> passed_through (classify ''VERSION\<newline>''))
   \<and> (fitting_line ''foo\<newline>'' \<and> \<not> passed_through (classify ''foo\<newline>'')
      \<and> stdin (session0\<lparr>stdin := prepend ''END\<newline>VERBOSE 2\<newline>VERSION\<newline>foo\<newline>bar\<newline>'' LNil\<rparr>)
          = prepend (concat [''END\<newline>'', ''VERBOSE 2\<newline>'', ''VERSION\<newline>''] @ ''foo\<newline>'')
              (prepend ''bar\<newline>'' LNil))
   \<and> (\<exists>s'. fo_scheduler_next ''SVN_REV Unknown''
               (session0\<lparr>stdin := prepend ''END\<newline>VERBOSE 2\<newline>VERSION\<newline>foo\<newline>bar\<newline>'' LNil\<rparr>)
             = Some (Buffer, s')
          \<and> stdin s' = prepend ''bar\<newline>'' LNil
          \<and> take (length ''foo\<newline>'') (buffer s') = ''foo\<newline>'')
   \<and> stdin (session0\<lparr>stdin := prepend ''END\<newline>VERBOSE 2\<newline>VERSION\<newline>'' LNil\<rparr>)
        = prepend (concat [''END\<newline>'', ''VERBOSE 2\<newline>'', ''VERSION\<newline>'']) LNil
   \<and> (\<exists>s'. fo_scheduler_next ''SVN_REV Unknown''
               (session0\<lparr>stdin := prepend ''END\<newline>VERBOSE 2\<newline>VERSION\<newline>'' LNil\<rparr>)
             = Some (NULL, s')
          \<and> stdin s' = LNil)"
proof -
  let ?ctrl = "[''END\<newline>'', ''VERBOSE 2\<newline>'', ''VERSION\<newline>'']"
  let ?s = "session0\<lparr>stdin := prepend ''END\<newline>VERBOSE 2\<newline>VERSION\<newline>foo\<newline>bar\<newline>'' LNil\<rparr>"
  let ?e = "session0\<lparr>stdin := prepend ''END\<newline>VERBOSE 2\<newline>VERSION\<newline>'' LNil\<rparr>"
  have c: "\<forall>l\<in>set ?ctrl. fitting_line l \<and> passed_through (classify l)"
    by (simp add: fitting_line_def newline_def BUFSIZE_def classify_def starts_with_def
                  passed_through_def)
  then have c': "fitting_line ''END\<newline>'' \<and> passed_through (classify ''END\<newline>'')
    \<and> fitting_line ''VERBOSE 2\<newline>'' \<and> passed_through (classify ''VERBOSE 2\<newline>'')
    \<and> fitting_line ''VERSION\<newline>'' \<and> passed_through (classify ''VERSION\<newline>'')"
    by simp
  have cd: "classify ''foo\<newline>'' = Data"
    by (simp add: classify_def starts_with_def)
  have d: "fitting_line ''foo\<newline>'' \<and> \<not> passed_through (classify ''foo\<newline>'')"
    unfolding cd by (simp add: fitting_line_def newline_def BUFSIZE_def passed_through_def)
  have h1: "stdin ?s = prepend (concat ?ctrl @ ''foo\<newline>'') (prepend ''bar\<newline>'' LNil)"
    by simp
  have h2: "stdin ?e = prepend (concat ?ctrl) LNil"
    by simp
  have "\<exists>s'. fo_scheduler_next ''SVN_REV Unknown'' ?s
               = Some (if classify ''foo\<newline>'' = Data then Buffer else NULL, s')
            \<and> stdin s' = prepend ''bar\<newline>'' LNil
            \<and> take (length ''foo\<newline>'') (buffer s') = ''foo\<newline>''"
    using d h1
      next_consumes_control_lines
        [OF c, of "''foo\<newline>''" ?s "prepend ''bar\<newline>'' LNil" "''SVN_REV Unknown''"]
    by blast
  then have a1: "\<exists>s'. fo_scheduler_next ''SVN_REV Unknown'' ?s = Some (Buffer, s')
            \<and> stdin s' = prepend ''bar\<newline>'' LNil
            \<and> take (length ''foo\<newline>'') (buffer s') = ''foo\<newline>''"
    by (simp only: cd refl if_True)
  have a2: "\<exists>s'. fo_scheduler_next ''SVN_REV Unknown'' ?e = Some (NULL, s') \<and> stdin s' = LNil"
    using h2
      next_consumes_control_lines
        [OF c, of "''foo\<newline>''" ?e "prepend ''bar\<newline>'' LNil" "''SVN_REV Unknown''"]
    by blast
  show ?thesis
    using c' d h1 a1 h2 a2 by blast
qed

text \<open>
  C9 as it is stated fails for a control line that does not fit the buffer. On an END
  line of 2048 bytes followed by the data line \<open>foo\<close>, the call takes the first 2047 bytes
  as an END line, returns the newline left over as data, and leaves \<open>foo\<close> unread: it has
  consumed the control line alone and not one further line.
\<close>

theorem long_control_line_split:
  "classify (''END'' @ replicate 2044 (CHR ''x'') @ [newline]) = End
   \<and> classify ''foo\<newline>'' = Data
   \<and> map_option result_text
        (fo_scheduler_next ''SVN_REV Unknown''
           (session0\<lparr>stdin := prepend (''END'' @ replicate 2044 (CHR ''x'') @ [newline])
                                 (prepend ''foo\<newline>'' LNil)\<rparr>))
     = Some (Some ''\<newline>'')
   \<and> map_option unread
        (fo_scheduler_next ''SVN_REV Unknown''
           (session0\<lparr>stdin := prepend (''END'' @ replicate 2044 (CHR ''x'') @ [newline])
                                 (prepend ''foo\<newline>'' LNil)\<rparr>))
     = Some (prepend ''foo\<newline>'' LNil)
   \<and> map_option unread
        (fo_scheduler_next ''SVN_REV Unknown''
           (session0\<lparr>stdin := prepend (''END'' @ replicate 2044 (CHR ''x'') @ [newline])
                                 (prepend ''foo\<newline>'' LNil)\<rparr>))
     \<noteq> Some LNil"
proof -
  let ?r = "''SVN_REV Unknown''"
  let ?c = "''END'' @ replicate 2044 (CHR ''x'')"
  let ?l = "''END'' @ replicate 2044 (CHR ''x'') @ [newline]"
  let ?s = "session0\<lparr>stdin := prepend ?l (prepend ''foo\<newline>'' LNil)\<rparr>"
  have c1: "classify ?l = End" "classify ?c = End"
    by (simp_all add: classify_def starts_with_def)
  have c2: "classify ''foo\<newline>'' = Data" "classify [newline] = Data"
    by (simp_all add: classify_def starts_with_def newline_def)
  have "fgets_read (length ?c) (prepend ?c (prepend [newline] (prepend ''foo\<newline>'' LNil))) =
        (?c, prepend [newline] (prepend ''foo\<newline>'' LNil))"
    by (rule fgets_read_full) (simp add: newline_def)
  then have "fgets_read (BUFSIZE - 1) (stdin ?s) =
        (?c, prepend [newline] (prepend ''foo\<newline>'' LNil))"
    by (simp add: BUFSIZE_def prepend_append)
  then have r1: "read_chunk (stdin ?s) = Some (?c, prepend [newline] (prepend ''foo\<newline>'' LNil))"
    by (simp add: read_chunk_def)
  have "recursed (next_body ?r ?s)"
    using r1 c1 by (simp add: next_body_recursed passed_through_def)
  then obtain s1 where b1: "next_body ?r ?s = Recursed s1"
    by (cases "next_body ?r ?s") simp_all
  have i1: "stdin s1 = prepend ([] @ [newline]) (prepend ''foo\<newline>'' LNil)"
    using next_body_stdin [of ?r ?s] b1 r1 by simp
  have r2: "read_chunk (stdin s1) = Some ([newline], prepend ''foo\<newline>'' LNil)"
    unfolding i1 using read_chunk_prepend [of "[]" "prepend ''foo\<newline>'' LNil"]
    by (simp add: BUFSIZE_def)
  from next_body_last [OF r2, of ?r] c2 obtain s2 where
    b2: "next_body ?r s1 = Returned Buffer s2" and i2: "stdin s2 = prepend ''foo\<newline>'' LNil"
    and "take (length [newline]) (buffer s2) = [newline]"
    by (auto simp: passed_through_def)
  then have "\<exists>t. buffer s2 = [newline] @ t \<and> hd t = NUL \<and> t \<noteq> []"
    using next_body_line [OF r2, of ?r] c2 by (auto simp: Let_def)
  then obtain t where "buffer s2 = [newline] @ NUL # t"
    by (metis list.collapse)
  then have t2: "c_str (buffer s2) = [newline]"
    using c_str_terminated [of "[newline]" t] by (simp add: NUL_def newline_def)
  have n: "fo_scheduler_next ?r ?s = Some (Buffer, s2)"
    by (subst next_unfold, subst b1, simp, subst next_unfold, subst b2, simp)
  have e1: "map_option result_text (fo_scheduler_next ?r ?s) = Some (Some ''\<newline>'')"
    unfolding n using t2 by (simp add: result_text_def text_at_def newline_def)
  have e2: "map_option unread (fo_scheduler_next ?r ?s) = Some (prepend ''foo\<newline>'' LNil)"
    unfolding n using i2 by (simp add: unread_def)
  show ?thesis
    unfolding e1 e2 using c1 c2 by simp
qed

section \<open>The flag \<open>valid\<close> (C8)\<close>

lemma valid_after_line:
  assumes "read_chunk (stdin s) = Some (l, rest)"
  shows "valid (outcome_state (next_body svn_rev s)) =
           (case classify l of Data \<Rightarrow> 1 | End \<Rightarrow> valid s | _ \<Rightarrow> 0)"
  using next_body_line [OF assms, of svn_rev]
  by (cases "classify l") (simp_all add: Let_def fflush_stdout_def fprintf_stdout_def)

lemma valid_after_eof:
  assumes "read_chunk (stdin s) = None"
  shows "valid (outcome_state (next_body svn_rev s)) = 0"
  using next_body_eof [OF assms, of svn_rev] by simp

lemma returned_valid:
  assumes "next_body svn_rev s = Returned p s'"
  shows "valid s' = (if p = Buffer then 1 else 0)"
proof (cases "read_chunk (stdin s)")
  case None
  from next_body_eof [OF this, of svn_rev] assms show ?thesis by auto
next
  case (Some a)
  obtain l rest where a: "a = (l, rest)" by (cases a)
  from next_body_line [OF Some [unfolded a], of svn_rev] assms show ?thesis
    by (cases "classify l") (auto simp: Let_def)
qed

text \<open>When a call returns, the flag says whether it returned a data line.\<close>

lemma valid_at_return:
  assumes "fo_scheduler_next svn_rev s = Some y"
  shows "valid (snd y) = (if fst y = Buffer then 1 else 0)"
  using assms
proof (rule next_induct [where P = "\<lambda>s y. valid (snd y) = (if fst y = Buffer then 1 else 0)"])
  fix s p s'
  assume "next_body svn_rev s = Returned p s'"
  from returned_valid [OF this]
  show "valid (snd (p, s')) = (if fst (p, s') = Buffer then 1 else 0)" by simp
qed

text \<open>
  C8 at the input \<open>foo\<close>, newline, \<open>END\<close>, newline: the first call returns the data line
  with \<open>valid = 1\<close>. In the second call the body reads the END line and goes into the
  recursive call with \<open>valid\<close> still 1, although the buffer now holds the control line:
  in that state \<open>fo_scheduler_current\<close> would hand out \<open>END\<close> as data.
\<close>

theorem end_line_leaves_valid:
  "next_body ''SVN_REV Unknown'' (session0\<lparr>stdin := prepend ''foo\<newline>END\<newline>'' LNil\<rparr>)
     = Returned Buffer
         (outcome_state
            (next_body ''SVN_REV Unknown'' (session0\<lparr>stdin := prepend ''foo\<newline>END\<newline>'' LNil\<rparr>)))
   \<and> valid (outcome_state
        (next_body ''SVN_REV Unknown'' (session0\<lparr>stdin := prepend ''foo\<newline>END\<newline>'' LNil\<rparr>))) = 1
   \<and> recursed
        (next_body ''SVN_REV Unknown''
           (outcome_state
              (next_body ''SVN_REV Unknown''
                 (session0\<lparr>stdin := prepend ''foo\<newline>END\<newline>'' LNil\<rparr>))))
   \<and> classify ''END\<newline>'' = End
   \<and> valid (outcome_state
        (next_body ''SVN_REV Unknown''
           (outcome_state
              (next_body ''SVN_REV Unknown''
                 (session0\<lparr>stdin := prepend ''foo\<newline>END\<newline>'' LNil\<rparr>))))) = 1
   \<and> text_at
        (outcome_state
           (next_body ''SVN_REV Unknown''
              (outcome_state
                 (next_body ''SVN_REV Unknown''
                    (session0\<lparr>stdin := prepend ''foo\<newline>END\<newline>'' LNil\<rparr>)))))
        (fo_scheduler_current
           (outcome_state
              (next_body ''SVN_REV Unknown''
                 (outcome_state
                    (next_body ''SVN_REV Unknown''
                       (session0\<lparr>stdin := prepend ''foo\<newline>END\<newline>'' LNil\<rparr>))))))
       = Some ''END\<newline>''"
proof -
  let ?s0 = "session0\<lparr>stdin := prepend ''foo\<newline>END\<newline>'' LNil\<rparr>"
  let ?s1 = "outcome_state (next_body ''SVN_REV Unknown'' ?s0)"
  let ?s2 = "outcome_state (next_body ''SVN_REV Unknown'' ?s1)"
  have i0: "stdin ?s0 = prepend (''foo'' @ [newline]) (prepend ''END\<newline>'' LNil)"
    by (simp add: newline_def)
  have c0: "classify (''foo'' @ [newline]) = Data"
    by (simp add: classify_def starts_with_def)
  have b0: "next_body ''SVN_REV Unknown'' ?s0 = Returned Buffer ?s1"
    using next_body_prepend [OF i0, of "''SVN_REV Unknown''"] c0
    by (simp add: newline_def BUFSIZE_def)
  have v1: "valid ?s1 = 1"
    using returned_valid [OF b0] by simp
  have i1: "stdin ?s1 = prepend (''END'' @ [newline]) LNil"
    using next_body_prepend [OF i0, of "''SVN_REV Unknown''"] c0
    by (simp add: newline_def BUFSIZE_def)
  have r1: "read_chunk (stdin ?s1) = Some (''END'' @ [newline], LNil)"
    unfolding i1 by (rule read_chunk_prepend) (simp_all add: newline_def BUFSIZE_def)
  have c1: "classify (''END'' @ [newline]) = End"
    by (simp add: classify_def starts_with_def)
  have rec: "recursed (next_body ''SVN_REV Unknown'' ?s1)"
    using r1 c1 by (simp add: next_body_recursed passed_through_def)
  have v2: "valid ?s2 = 1"
    using valid_after_line [OF r1, of "''SVN_REV Unknown''"] c1 v1 by simp
  have "\<exists>t. buffer ?s2 = (''END'' @ [newline]) @ NUL # t"
    using next_body_line [OF r1, of "''SVN_REV Unknown''"] c1
    by (simp add: Let_def fflush_stdout_def fprintf_stdout_def)
  then have "c_str (buffer ?s2) = ''END'' @ [newline]"
    using c_str_terminated [of "''END'' @ [newline]"] by (auto simp: NUL_def newline_def)
  then have t2: "text_at ?s2 (fo_scheduler_current ?s2) = Some ''END\<newline>''"
    using v2 by (simp add: fo_scheduler_current_def text_at_def newline_def)
  show ?thesis
    using b0 v1 rec c1 v2 t2 by (simp add: newline_def)
qed

end
